theory Spec2Isabelle
  imports Complex_Main "HOL-Library.Sublist"
begin

section \<open>Python values and the string built-ins the script uses\<close>

text \<open>
  The script \<^verbatim>\<open>scripts/generate-embeddings.py\<close> reads a CSV knowledge base, builds one
  text per row, asks an embedding service for one vector per text (in batches, with
  retries) and writes the points to a JSON file.

  A Python \<^verbatim>\<open>str\<close> is modelled as a \<^typ>\<open>string\<close>; one \<^typ>\<open>char\<close> stands for one
  code point below 256. The built-ins \<^verbatim>\<open>str.strip\<close>, \<^verbatim>\<open>str.split\<close>,
  \<^verbatim>\<open>str.join\<close> and \<^verbatim>\<open>int\<close> are written out for that range.
\<close>

datatype py_exception =
  KeyError | AttributeError | TypeError | ValueError | IndexError
  | FileNotFoundError | OSError | APIError

datatype abort = SystemExit int | Uncaught py_exception

datatype pyval = PyNone | PyStr string

definition bind :: "'e + 'a \<Rightarrow> ('a \<Rightarrow> 'e + 'b) \<Rightarrow> 'e + 'b" where
  "bind m f = (case m of Inl e \<Rightarrow> Inl e | Inr x \<Rightarrow> f x)"

text \<open>\<^verbatim>\<open>str.isspace\<close> on one code point below 256: 9..13, 28..32, 0x85 and 0xA0.\<close>

definition isspace :: "char \<Rightarrow> bool" where
  "isspace c =
     (let n = (of_char c :: nat)
      in (9 \<le> n \<and> n \<le> 13) \<or> (28 \<le> n \<and> n \<le> 32) \<or> n = 133 \<or> n = 160)"

text \<open>\<^verbatim>\<open>s.strip()\<close>: whitespace is removed at the front, then at the back.\<close>

definition lstrip :: "string \<Rightarrow> string" where
  "lstrip s = dropWhile isspace s"

definition rstrip :: "string \<Rightarrow> string" where
  "rstrip s = rev (dropWhile isspace (rev s))"

definition strip :: "string \<Rightarrow> string" where
  "strip s = rstrip (lstrip s)"

text \<open>
  \<^verbatim>\<open>s.split(sep)\<close> with a one-character separator: every occurrence of the separator
  ends a piece, empty pieces are kept, and the result is never the empty list
  (\<^verbatim>\<open>''.split(',') == ['']\<close>).
\<close>

fun split :: "char \<Rightarrow> string \<Rightarrow> string list" where
  "split sep [] = [[]]"
| "split sep (c # cs) =
     (if c = sep then [] # split sep cs
      else (case split sep cs of
              [] \<Rightarrow> [[c]]
            | w # ws \<Rightarrow> (c # w) # ws))"

text \<open>\<^verbatim>\<open>sep.join(xs)\<close>.\<close>

fun join :: "'a list \<Rightarrow> 'a list list \<Rightarrow> 'a list" where
  "join sep [] = []"
| "join sep [x] = x"
| "join sep (x # y # ys) = x @ sep @ join sep (y # ys)"

text \<open>
  \<^verbatim>\<open>int(s)\<close> for a string, base 10. Whitespace is skipped at both ends (for \<^verbatim>\<open>int\<close>
  the code points 28..31 do not count as whitespace), then comes an optional sign and
  a non-empty run of decimal digits in which single underscores may separate digits.
  Anything else raises \<^verbatim>\<open>ValueError\<close>.
\<close>

definition int_space :: "char \<Rightarrow> bool" where
  "int_space c =
     (let n = (of_char c :: nat)
      in (9 \<le> n \<and> n \<le> 13) \<or> n = 32 \<or> n = 133 \<or> n = 160)"

definition digit_val :: "char \<Rightarrow> nat option" where
  "digit_val c =
     (let n = (of_char c :: nat)
      in if 48 \<le> n \<and> n \<le> 57 then Some (n - 48) else None)"

fun more_digits :: "nat \<Rightarrow> string \<Rightarrow> nat option" where
  "more_digits acc [] = Some acc"
| "more_digits acc (c # cs) =
     (case digit_val c of
        Some v \<Rightarrow> more_digits (10 * acc + v) cs
      | None \<Rightarrow>
          (if c = CHR ''_'' then
             (case cs of
                [] \<Rightarrow> None
              | d # ds \<Rightarrow>
                  (case digit_val d of
                     None \<Rightarrow> None
                   | Some v \<Rightarrow> more_digits (10 * acc + v) ds))
           else None))"

definition unsigned :: "string \<Rightarrow> nat option" where
  "unsigned s =
     (case s of
        [] \<Rightarrow> None
      | d # ds \<Rightarrow>
          (case digit_val d of
             None \<Rightarrow> None
           | Some v \<Rightarrow> more_digits v ds))"

definition py_int :: "string \<Rightarrow> int option" where
  "py_int s =
     (case rev (dropWhile int_space (rev (dropWhile int_space s))) of
        [] \<Rightarrow> None
      | c # cs \<Rightarrow>
          (if c = CHR ''-'' then map_option (\<lambda>n. - int n) (unsigned cs)
           else if c = CHR ''+'' then map_option int (unsigned cs)
           else map_option int (unsigned (c # cs))))"

text \<open>\<^verbatim>\<open>int(v)\<close> on a value that may be \<^verbatim>\<open>None\<close>.\<close>

definition int_of :: "pyval \<Rightarrow> py_exception + int" where
  "int_of v =
     (case v of
        PyNone \<Rightarrow> Inl TypeError
      | PyStr s \<Rightarrow> (case py_int s of None \<Rightarrow> Inl ValueError | Some n \<Rightarrow> Inr n))"

text \<open>\<^verbatim>\<open>v.split(sep)\<close> on a value that may be \<^verbatim>\<open>None\<close>.\<close>

definition split_of :: "char \<Rightarrow> pyval \<Rightarrow> py_exception + string list" where
  "split_of sep v =
     (case v of
        PyNone \<Rightarrow> Inl AttributeError
      | PyStr s \<Rightarrow> Inr (split sep s))"

text \<open>What an f-string prints for a value: \<^verbatim>\<open>f"{None}"\<close> is \<^verbatim>\<open>None\<close>.\<close>

definition format :: "pyval \<Rightarrow> string" where
  "format v = (case v of PyNone \<Rightarrow> ''None'' | PyStr s \<Rightarrow> s)"

section \<open>The loader\<close>

text \<open>
  A row of \<^verbatim>\<open>csv.DictReader\<close> maps the header's column names to the row's cells; a
  row shorter than the header has \<^verbatim>\<open>None\<close> in the missing cells.
\<close>

type_synonym row = "string \<rightharpoonup> pyval"

record knowledge_item =
  item :: pyval
  category :: pyval
  destination_type :: pyval
  travel_type :: pyval
  season :: "string list"
  quantity :: int
  reason :: pyval
  importance :: pyval
  tags :: "string list"
  climate :: "string list"

text \<open>\<^verbatim>\<open>row[k]\<close> and \<^verbatim>\<open>row.get(k, d)\<close>.\<close>

definition getitem :: "row \<Rightarrow> string \<Rightarrow> py_exception + pyval" where
  "getitem r k = (case r k of None \<Rightarrow> Inl KeyError | Some v \<Rightarrow> Inr v)"

definition get :: "row \<Rightarrow> string \<Rightarrow> pyval \<Rightarrow> pyval" where
  "get r k d = (case r k of None \<Rightarrow> d | Some v \<Rightarrow> v)"

text \<open>
  The body of the loop over the rows (lines 45 to 60), in the order Python evaluates it:
  the three list fields first, then the dictionary's values from top to bottom.
\<close>

definition parse_row :: "row \<Rightarrow> py_exception + knowledge_item" where
  "parse_row r =
     bind (getitem r ''season'') (\<lambda>sv.
     bind (split_of CHR '','' sv) (\<lambda>ss.
     bind (split_of CHR '';'' (get r ''tags'' (PyStr ''''))) (\<lambda>ts.
     bind (split_of CHR '';'' (get r ''climate'' (PyStr ''''))) (\<lambda>cs.
     bind (getitem r ''item'') (\<lambda>i.
     bind (getitem r ''category'') (\<lambda>c.
     bind (getitem r ''destination_type'') (\<lambda>d.
     bind (getitem r ''travel_type'') (\<lambda>t.
     bind (getitem r ''quantity'') (\<lambda>qv.
     bind (int_of qv) (\<lambda>q.
     bind (getitem r ''reason'') (\<lambda>re.
     bind (getitem r ''importance'') (\<lambda>im.
       Inr \<lparr> item = i, category = c, destination_type = d, travel_type = t,
             season = map strip ss,
             quantity = q, reason = re, importance = im,
             tags = map strip (filter (\<lambda>t. strip t \<noteq> []) ts),
             climate = map strip (filter (\<lambda>c. strip c \<noteq> []) cs) \<rparr>))))))))))))"

text \<open>
  \<^verbatim>\<open>for row in reader: ... items.append(...)\<close>. Any exception in the body reaches
  \<^verbatim>\<open>except Exception\<close>, which ends the process with \<^verbatim>\<open>sys.exit(1)\<close>: the items
  collected so far are dropped.
\<close>

fun load_rows :: "row list \<Rightarrow> knowledge_item list \<Rightarrow> abort + knowledge_item list" where
  "load_rows [] items = Inr items"
| "load_rows (r # rs) items =
     (case parse_row r of
        Inl e \<Rightarrow> Inl (SystemExit 1)
      | Inr it \<Rightarrow> load_rows rs (items @ [it]))"

text \<open>
  The file is what \<^verbatim>\<open>open\<close> and the reader give: an exception, or the rows in file
  order. \<^verbatim>\<open>FileNotFoundError\<close> and every other exception print different messages and
  both end in \<^verbatim>\<open>sys.exit(1)\<close>.
\<close>

definition load_knowledge_base :: "py_exception + row list \<Rightarrow> abort + knowledge_item list" where
  "load_knowledge_base csv_file =
     (case csv_file of
        Inl e \<Rightarrow> (if e = FileNotFoundError then Inl (SystemExit 1) else Inl (SystemExit 1))
      | Inr rows \<Rightarrow> load_rows rows [])"

section \<open>The text sent to the embedding service\<close>

text \<open>
  \<^verbatim>\<open>create_embedding_text\<close> (lines 73 to 87): the f-string, then \<^verbatim>\<open>.strip()\<close> on
  the whole of it. The quantity is not part of the text.
\<close>

definition create_embedding_text :: "knowledge_item \<Rightarrow> string" where
  "create_embedding_text it =
     strip (''Item: '' @ format (item it) @ [CHR 0x0A] @
            ''Category: '' @ format (category it) @ [CHR 0x0A] @
            ''Travel Type: '' @ format (travel_type it) @ [CHR 0x0A] @
            ''Destination: '' @ format (destination_type it) @ [CHR 0x0A] @
            ''Season: '' @ join '', '' (season it) @ [CHR 0x0A] @
            ''Reason: '' @ format (reason it) @ [CHR 0x0A] @
            ''Tags: '' @ join '', '' (tags it) @ [CHR 0x0A] @
            ''Climate: '' @ join '', '' (climate it) @ [CHR 0x0A] @
            ''Importance: '' @ format (importance it))"

text \<open>
  The template in the specification's words: the nine labelled fields, one per line, in
  the order item, category, travel type, destination, season, reason, tags, climate,
  importance, the three lists joined with a comma and a space.
\<close>

definition embedding_template :: "knowledge_item \<Rightarrow> string" where
  "embedding_template it =
     join [CHR 0x0A]
       [''Item: '' @ format (item it),
        ''Category: '' @ format (category it),
        ''Travel Type: '' @ format (travel_type it),
        ''Destination: '' @ format (destination_type it),
        ''Season: '' @ join '', '' (season it),
        ''Reason: '' @ format (reason it),
        ''Tags: '' @ join '', '' (tags it),
        ''Climate: '' @ join '', '' (climate it),
        ''Importance: '' @ format (importance it)]"

section \<open>The batch embedder\<close>

definition EMBEDDING_MODEL :: string where
  "EMBEDDING_MODEL = ''text-embedding-3-small''"

definition EMBEDDING_DIMENSIONS :: nat where
  "EMBEDDING_DIMENSIONS = 1536"

definition BATCH_SIZE :: nat where
  "BATCH_SIZE = 100"

definition RETRY_ATTEMPTS :: nat where
  "RETRY_ATTEMPTS = 3"

definition RETRY_DELAY :: real where
  "RETRY_DELAY = 2"

text \<open>
  The outside world of the embedder. \<^verbatim>\<open>client.embeddings.create\<close> either raises or
  returns \<^verbatim>\<open>response.data\<close>, the list of embeddings; what it does may change from
  one call to the next, so it is indexed by the number of calls made before.
  \<^verbatim>\<open>uuid.uuid4()\<close> is indexed in the same way. The numbers in a vector are never
  inspected and have the type \<open>'v\<close>.
\<close>

record request =
  model :: string
  input :: "string list"
  dimensions :: nat

datatype 'v response = Raises | Data "'v list list"

record 'v services =
  embeddings_create :: "nat \<Rightarrow> request \<Rightarrow> 'v response"
  uuid4 :: "nat \<Rightarrow> string"

record 'v point =
  point_id :: string
  vector :: "'v list"
  payload :: knowledge_item

text \<open>What the process did to the outside, in order: service calls and \<^verbatim>\<open>time.sleep\<close>.\<close>

datatype event = Create request | Sleep real

record 'v state =
  points :: "'v point list"
  calls :: nat
  uuids :: nat
  trace :: "event list"

text \<open>The requests among the events of a trace, in order.\<close>

definition requests :: "event list \<Rightarrow> request list" where
  "requests tr = concat (map (\<lambda>e. case e of Create r \<Rightarrow> [r] | Sleep d \<Rightarrow> []) tr)"

text \<open>
  Lines 113 to 131: \<^verbatim>\<open>for j, embedding_obj in enumerate(response.data)\<close>. A response
  longer than the batch makes \<^verbatim>\<open>batch[j]\<close> raise \<^verbatim>\<open>IndexError\<close>; the points appended
  before stay in \<^verbatim>\<open>points\<close>.
\<close>

fun format_points ::
  "'v services \<Rightarrow> knowledge_item list \<Rightarrow> nat \<Rightarrow> 'v list list \<Rightarrow> 'v state
     \<Rightarrow> py_exception option \<times> 'v state" where
  "format_points svc batch j [] st = (None, st)"
| "format_points svc batch j (e # es) st =
     (if j < length batch then
        (let it = batch ! j;
             point = \<lparr> point_id = uuid4 svc (uuids st),
                       vector = e,
                       payload = \<lparr> item = item it, category = category it,
                                   destination_type = destination_type it,
                                   travel_type = travel_type it,
                                   season = season it, quantity = quantity it,
                                   reason = reason it, importance = importance it,
                                   tags = tags it, climate = climate it \<rparr> \<rparr>
         in format_points svc batch (Suc j) es
              (st\<lparr> points := points st @ [point], uuids := Suc (uuids st) \<rparr>))
      else (Some IndexError, st))"

text \<open>
  Lines 105 to 131, the body of \<^verbatim>\<open>try\<close>: one call of the service, then the
  formatting loop. The result says which exception ended it, if any, and what the state
  is by then.
\<close>

definition embedding_request :: "string list \<Rightarrow> request" where
  "embedding_request texts =
     \<lparr> model = EMBEDDING_MODEL, input = texts, dimensions = EMBEDDING_DIMENSIONS \<rparr>"

definition try_block ::
  "'v services \<Rightarrow> knowledge_item list \<Rightarrow> string list \<Rightarrow> 'v state
     \<Rightarrow> py_exception option \<times> 'v state" where
  "try_block svc batch texts st =
     (let req = embedding_request texts;
          st1 = st\<lparr> calls := Suc (calls st), trace := trace st @ [Create req] \<rparr>
      in case embeddings_create svc (calls st) req of
           Raises \<Rightarrow> (Some APIError, st1)
         | Data d \<Rightarrow> format_points svc batch 0 d st1)"

text \<open>
  Lines 104 to 143: \<^verbatim>\<open>for attempt in range(RETRY_ATTEMPTS)\<close>, over the list of attempt
  numbers still to run. Success breaks the loop; an exception of the call or of the
  formatting loop sleeps and tries again, and on the last attempt exits.
\<close>

fun attempts ::
  "nat \<Rightarrow> 'v services \<Rightarrow> knowledge_item list \<Rightarrow> string list \<Rightarrow> nat list \<Rightarrow> 'v state
     \<Rightarrow> abort + 'v state" where
  "attempts R svc batch texts [] st = Inr st"
| "attempts R svc batch texts (attempt # rest) st =
     (case try_block svc batch texts st of
        (None, st2) \<Rightarrow> Inr st2
      | (Some e, st2) \<Rightarrow>
          (if int attempt < int R - 1
           then attempts R svc batch texts rest (st2\<lparr> trace := trace st2 @ [Sleep RETRY_DELAY] \<rparr>)
           else Inl (SystemExit 1)))"

text \<open>\<^verbatim>\<open>range(i, n, step)\<close> for a step that is not negative; Python refuses the step 0.\<close>

function py_range :: "nat \<Rightarrow> nat \<Rightarrow> nat \<Rightarrow> nat list" where
  "py_range i n step = (if step = 0 \<or> n \<le> i then [] else i # py_range (i + step) n step)"
  by pat_completeness auto
termination
  by (relation "measure (\<lambda>(i, n, step). n - i)") auto

declare py_range.simps [simp del]

text \<open>
  Lines 99 to 147: the loop over the batch starts \<^verbatim>\<open>i\<close>, with
  \<^verbatim>\<open>batch = items[i:i + BATCH_SIZE]\<close>.
\<close>

fun batches ::
  "nat \<Rightarrow> nat \<Rightarrow> 'v services \<Rightarrow> knowledge_item list \<Rightarrow> nat list \<Rightarrow> 'v state
     \<Rightarrow> abort + 'v state" where
  "batches B R svc items [] st = Inr st"
| "batches B R svc items (i # rest) st =
     (let batch = take B (drop i items);
          texts = map create_embedding_text batch
      in case attempts R svc batch texts [0..<R] st of
           Inl a \<Rightarrow> Inl a
         | Inr st1 \<Rightarrow>
             batches B R svc items rest
               (if i + B < length items then st1\<lparr> trace := trace st1 @ [Sleep (1/2)] \<rparr> else st1))"

text \<open>
  \<^verbatim>\<open>generate_embeddings\<close> with the two module constants of its loops as parameters,
  and the function of the script, which reads the constants.
\<close>

definition embed_with ::
  "nat \<Rightarrow> nat \<Rightarrow> 'v services \<Rightarrow> knowledge_item list \<Rightarrow> abort + 'v state" where
  "embed_with B R svc items =
     (if B = 0 then Inl (Uncaught ValueError)
      else batches B R svc items (py_range 0 (length items) B)
             \<lparr> points = [], calls = 0, uuids = 0, trace = [] \<rparr>)"

definition generate_embeddings ::
  "'v services \<Rightarrow> knowledge_item list \<Rightarrow> string \<Rightarrow> abort + 'v state" where
  "generate_embeddings svc items api_key = embed_with BATCH_SIZE RETRY_ATTEMPTS svc items"

section \<open>The writer and the script\<close>

definition OUTPUT_FILE :: string where
  "OUTPUT_FILE = ''data/packing-embeddings.json''"

record metadata =
  total_items :: nat
  embedding_model :: string
  meta_dimensions :: nat
  generated_at :: string

record 'v document =
  doc_points :: "'v point list"
  doc_metadata :: metadata

datatype 'v contents = Partial | Json "'v document"

type_synonym 'v fs = "string \<rightharpoonup> 'v contents"

datatype write_fault = MakedirsFails | OpenFails | DumpFails

text \<open>
  \<^verbatim>\<open>save_embeddings\<close>: a failure before the file is open leaves the file system as
  it was, a failure while dumping leaves a partial file; all of them exit with 1.
\<close>

definition save_embeddings ::
  "write_fault option \<Rightarrow> string \<Rightarrow> 'v point list \<Rightarrow> string \<Rightarrow> 'v fs \<Rightarrow> abort option \<times> 'v fs" where
  "save_embeddings fault now pts output_path fs =
     (case fault of
        Some MakedirsFails \<Rightarrow> (Some (SystemExit 1), fs)
      | Some OpenFails \<Rightarrow> (Some (SystemExit 1), fs)
      | Some DumpFails \<Rightarrow> (Some (SystemExit 1), fs(output_path \<mapsto> Partial))
      | None \<Rightarrow>
          (None, fs(output_path \<mapsto>
             Json \<lparr> doc_points = pts,
                    doc_metadata = \<lparr> total_items = length pts,
                                      embedding_model = EMBEDDING_MODEL,
                                      meta_dimensions = EMBEDDING_DIMENSIONS,
                                      generated_at = now \<rparr> \<rparr>)))"

record 'v world =
  OPENAI_API_KEY :: "string option"
  csv_file :: "py_exception + row list"
  services :: "'v services"
  write_fault :: "write_fault option"
  strftime :: string

text \<open>
  \<^verbatim>\<open>print_statistics\<close> only prints. It sorts the counts per category and per travel
  type by their keys, and Python does not compare \<^verbatim>\<open>None\<close> with a string: when one of
  the two columns holds both, \<^verbatim>\<open>sorted\<close> raises \<^verbatim>\<open>TypeError\<close>. The counts per
  importance are sorted by a number and never raise.
\<close>

definition mixed :: "pyval list \<Rightarrow> bool" where
  "mixed vs = (PyNone \<in> set vs \<and> (\<exists>v\<in>set vs. v \<noteq> PyNone))"

definition print_statistics :: "knowledge_item list \<Rightarrow> py_exception option" where
  "print_statistics items =
     (if mixed (map category items) \<or> mixed (map travel_type items)
      then Some TypeError else None)"

text \<open>
  \<^verbatim>\<open>main\<close>, and the \<^verbatim>\<open>__main__\<close> block around it: the exit status of the process
  and the file system it leaves. An exception that \<^verbatim>\<open>main\<close> lets through is caught by
  the block, which exits with status 1.
\<close>

definition main :: "'v world \<Rightarrow> 'v fs \<Rightarrow> abort option \<times> 'v fs" where
  "main w fs =
     (case OPENAI_API_KEY w of
        None \<Rightarrow> (Some (SystemExit 1), fs)
      | Some api_key \<Rightarrow>
          (if api_key = [] then (Some (SystemExit 1), fs)
           else case load_knowledge_base (csv_file w) of
                  Inl a \<Rightarrow> (Some a, fs)
                | Inr items \<Rightarrow>
                    (case print_statistics items of
                       Some e \<Rightarrow> (Some (Uncaught e), fs)
                     | None \<Rightarrow>
                         (case generate_embeddings (services w) items api_key of
                            Inl a \<Rightarrow> (Some a, fs)
                          | Inr st \<Rightarrow>
                              save_embeddings (write_fault w) (strftime w) (points st)
                                OUTPUT_FILE fs))))"

definition script :: "'v world \<Rightarrow> 'v fs \<Rightarrow> int \<times> 'v fs" where
  "script w fs =
     (case main w fs of
        (None, fs') \<Rightarrow> (0, fs')
      | (Some (SystemExit n), fs') \<Rightarrow> (n, fs')
      | (Some (Uncaught e), fs') \<Rightarrow> (1, fs'))"

section \<open>Example inputs\<close>

text \<open>The row of the specification's end-to-end example, and the item it loads as.\<close>

definition passport_row :: row where
  "passport_row = map_of
     [(''item'', PyStr ''Passport''), (''category'', PyStr ''documents''),
      (''destination_type'', PyStr ''international''), (''travel_type'', PyStr ''business''),
      (''season'', PyStr ''all''), (''quantity'', PyStr ''1''),
      (''reason'', PyStr ''required''), (''importance'', PyStr ''critical''),
      (''tags'', PyStr ''essential''), (''climate'', PyStr ''any'')]"

definition passport :: knowledge_item where
  "passport = \<lparr> item = PyStr ''Passport'', category = PyStr ''documents'',
                  destination_type = PyStr ''international'', travel_type = PyStr ''business'',
                  season = [''all''], quantity = 1, reason = PyStr ''required'',
                  importance = PyStr ''critical'', tags = [''essential''], climate = [''any''] \<rparr>"

text \<open>Item lists for runs of more than one batch.\<close>

definition three_items :: "knowledge_item list" where
  "three_items = [passport, passport\<lparr> quantity := 2 \<rparr>, passport\<lparr> quantity := 3 \<rparr>]"

definition four_items :: "knowledge_item list" where
  "four_items = [passport, passport\<lparr> quantity := 2 \<rparr>, passport\<lparr> quantity := 3 \<rparr>,
                 passport\<lparr> quantity := 4 \<rparr>]"

text \<open>
  Services for the examples. \<open>flaky m\<close> raises on its first \<open>m\<close> calls and then answers
  every request with one vector of the requested length per text; \<open>flaky 0\<close> never
  raises. \<open>down\<close> raises on every call. The n-th identifier is a run of n + 1 letters.
\<close>

definition flaky :: "nat \<Rightarrow> nat services" where
  "flaky m =
     \<lparr> embeddings_create =
         (\<lambda>n req. if n < m then Raises
                  else Data (map (\<lambda>t. replicate (dimensions req) 0) (input req))),
       uuid4 = (\<lambda>n. replicate (Suc n) CHR ''u'') \<rparr>"

definition down :: "nat services" where
  "down = \<lparr> embeddings_create = (\<lambda>n req. Raises),
            uuid4 = (\<lambda>n. replicate (Suc n) CHR ''u'') \<rparr>"

text \<open>
  A service outside its contract: its first answer has one vector more than there are
  texts, its later answers one vector per text.
\<close>

definition overlong :: "nat services" where
  "overlong =
     \<lparr> embeddings_create =
         (\<lambda>n req. if n = 0 then Data (replicate (Suc (length (input req))) [0])
                  else Data (map (\<lambda>t. [0]) (input req))),
       uuid4 = (\<lambda>n. replicate (Suc n) CHR ''u'') \<rparr>"

definition example_world :: "nat services \<Rightarrow> nat world" where
  "example_world svc =
     \<lparr> OPENAI_API_KEY = Some ''sk-example'', csv_file = Inr [passport_row],
       services = svc, write_fault = None, strftime = ''2025-01-01 00:00:00'' \<rparr>"

section \<open>Properties of the loader\<close>

lemmas loader_defs = parse_row_def bind_def getitem_def get_def split_of_def int_of_def
  py_int_def unsigned_def digit_val_def int_space_def strip_def lstrip_def rstrip_def isspace_def
  load_knowledge_base_def passport_row_def passport_def

lemma bind_Inr_iff: "bind m f = Inr y \<longleftrightarrow> (\<exists>x. m = Inr x \<and> f x = Inr y)"
  by (cases m) (simp_all add: bind_def)

lemma getitem_Inr_iff: "getitem r k = Inr v \<longleftrightarrow> r k = Some v"
  by (simp add: getitem_def split: option.splits)

lemma split_of_Inr_iff: "split_of sep v = Inr ss \<longleftrightarrow> (\<exists>s. v = PyStr s \<and> ss = split sep s)"
  by (cases v) (auto simp: split_of_def)

lemma int_of_Inr_iff: "int_of v = Inr q \<longleftrightarrow> (\<exists>s. v = PyStr s \<and> py_int s = Some q)"
  by (cases v) (auto simp: int_of_def split: option.splits)

text \<open>What a row that parses looks like, field by field.\<close>

lemma parse_row_Inr:
  assumes "parse_row r = Inr it"
  shows "\<exists>sv tv cv qv.
           r ''season'' = Some (PyStr sv) \<and>
           get r ''tags'' (PyStr []) = PyStr tv \<and>
           get r ''climate'' (PyStr []) = PyStr cv \<and>
           r ''quantity'' = Some (PyStr qv) \<and>
           py_int qv = Some (quantity it) \<and>
           season it = map strip (split CHR '','' sv) \<and>
           tags it = map strip (filter (\<lambda>t. strip t \<noteq> []) (split CHR '';'' tv)) \<and>
           climate it = map strip (filter (\<lambda>c. strip c \<noteq> []) (split CHR '';'' cv)) \<and>
           r ''item'' = Some (item it) \<and> r ''category'' = Some (category it) \<and>
           r ''destination_type'' = Some (destination_type it) \<and>
           r ''travel_type'' = Some (travel_type it) \<and>
           r ''reason'' = Some (reason it) \<and> r ''importance'' = Some (importance it)"
  using assms
  unfolding parse_row_def bind_Inr_iff getitem_Inr_iff split_of_Inr_iff int_of_Inr_iff
  by clarsimp

text \<open>The loop returns the items in row order, one per row, or exits with status 1.\<close>

lemma load_rows_Inr:
  "load_rows rows acc = Inr items \<longleftrightarrow>
     (\<exists>its. items = acc @ its \<and> list_all2 (\<lambda>r it. parse_row r = Inr it) rows its)"
proof (induction rows arbitrary: acc)
  case Nil
  then show ?case by auto
next
  case (Cons r rs)
  show ?case
  proof (cases "parse_row r")
    case (Inl e)
    then show ?thesis by (auto simp: list_all2_Cons1)
  next
    case (Inr it)
    then show ?thesis using Cons.IH [of "acc @ [it]"]
      by (auto simp: list_all2_Cons1)
  qed
qed

lemma load_rows_Inl: "load_rows rows acc = Inl a \<Longrightarrow> a = SystemExit 1"
  by (induction rows arbitrary: acc) (auto split: sum.splits)

lemma load_knowledge_base_Inr:
  "load_knowledge_base (Inr rows) = Inr items \<longleftrightarrow>
     list_all2 (\<lambda>r it. parse_row r = Inr it) rows items"
  by (simp add: load_knowledge_base_def load_rows_Inr)

lemma load_knowledge_base_rows:
  assumes "load_knowledge_base csv = Inr items"
  obtains rows where "csv = Inr rows" and "list_all2 (\<lambda>r it. parse_row r = Inr it) rows items"
proof (cases csv)
  case (Inl e)
  with assms show ?thesis by (simp add: load_knowledge_base_def)
next
  case (Inr rows)
  with assms that show ?thesis by (simp add: load_knowledge_base_Inr)
qed

lemma load_knowledge_base_item:
  assumes "load_knowledge_base csv = Inr items" and "it \<in> set items"
  obtains r where "parse_row r = Inr it"
proof -
  from assms(1) obtain rows where "list_all2 (\<lambda>r it. parse_row r = Inr it) rows items"
    by (rule load_knowledge_base_rows)
  with assms(2) that show ?thesis
    by (auto simp: list_all2_conv_all_nth in_set_conv_nth)
qed

subsection \<open>What \<^verbatim>\<open>strip\<close> leaves\<close>

lemma lstrip_hd: "lstrip s \<noteq> [] \<Longrightarrow> \<not> isspace (hd (lstrip s))"
  unfolding lstrip_def by (rule hd_dropWhile)

lemma rstrip_last: "rstrip s \<noteq> [] \<Longrightarrow> \<not> isspace (last (rstrip s))"
  unfolding rstrip_def using hd_dropWhile [of isspace "rev s"] by (simp add: last_rev)

lemma rstrip_hd: "rstrip s \<noteq> [] \<Longrightarrow> hd (rstrip s) = hd s"
proof -
  assume ne: "rstrip s \<noteq> []"
  have "rev s = takeWhile isspace (rev s) @ dropWhile isspace (rev s)" by simp
  then have "s = rstrip s @ rev (takeWhile isspace (rev s))"
    unfolding rstrip_def by (metis rev_append rev_rev_ident)
  then show ?thesis using ne by (metis hd_append2)
qed

lemma rstrip_Nil: "rstrip [] = []"
  by (simp add: rstrip_def)

lemma strip_ends:
  "strip s \<noteq> [] \<Longrightarrow> \<not> isspace (hd (strip s)) \<and> \<not> isspace (last (strip s))"
  unfolding strip_def using rstrip_hd [of "lstrip s"] rstrip_last [of "lstrip s"] lstrip_hd [of s]
  by (cases "lstrip s = []") (auto simp: rstrip_Nil)

lemma lstrip_id: "s = [] \<or> \<not> isspace (hd s) \<Longrightarrow> lstrip s = s"
  by (cases s) (auto simp: lstrip_def)

lemma rstrip_id: "s = [] \<or> \<not> isspace (last s) \<Longrightarrow> rstrip s = s"
  by (cases "rev s") (auto simp: rstrip_def last_rev)

lemma strip_strip: "strip (strip s) = strip s"
proof (cases "strip s = []")
  case True
  have "strip [] = []" by (simp add: strip_def lstrip_def rstrip_def)
  with True show ?thesis by simp
next
  case False
  from strip_ends [OF False] show ?thesis
    by (simp add: strip_def [of "strip s"] lstrip_id rstrip_id)
qed

text \<open>
  The tags and the climate list drop the pieces that are empty after stripping and keep
  the others in the order of the field.
\<close>

lemma filtered_pieces:
  "map strip (filter (\<lambda>t. strip t \<noteq> []) ps) = filter (\<lambda>s. s \<noteq> []) (map strip ps)"
  by (induction ps) auto

lemma tags_climate_nonempty_in_order:
  assumes "parse_row r = Inr it"
  shows "[] \<notin> set (tags it) \<and> [] \<notin> set (climate it) \<and>
         (\<exists>tv. get r ''tags'' (PyStr []) = PyStr tv \<and>
               tags it = filter (\<lambda>s. s \<noteq> []) (map strip (split CHR '';'' tv))) \<and>
         (\<exists>cv. get r ''climate'' (PyStr []) = PyStr cv \<and>
               climate it = filter (\<lambda>s. s \<noteq> []) (map strip (split CHR '';'' cv)))"
  using parse_row_Inr [OF assms] by (auto simp: filtered_pieces)

text \<open>
  Claim C4: the season, tags and climate lists of a loaded item contain no empty string
  and keep the order of the source field. The tags and the climate list do
  (\<open>tags_climate_nonempty_in_order\<close>); the season list is split and stripped but not
  filtered, so the season field \<^verbatim>\<open>summer,,winter\<close> loads with an empty string
  between the two seasons.
\<close>

theorem season_keeps_empty_piece:
  "load_knowledge_base (Inr [passport_row(''season'' \<mapsto> PyStr ''summer,,winter'')])
     = Inr [passport\<lparr> season := [''summer'', [], ''winter''] \<rparr>]"
  by (simp add: loader_defs)

text \<open>
  Claim C10: every element of the season, tags and climate lists of a loaded item has no
  whitespace at its front or at its end: stripping it again changes nothing, and when it
  is not empty its first and its last character are not whitespace.
\<close>

theorem loaded_lists_stripped:
  assumes "load_knowledge_base csv = Inr items"
    and "it \<in> set items"
    and "s \<in> set (season it) \<union> set (tags it) \<union> set (climate it)"
  shows "strip s = s \<and> (s \<noteq> [] \<longrightarrow> \<not> isspace (hd s) \<and> \<not> isspace (last s))"
proof -
  from assms(1,2) obtain r where "parse_row r = Inr it"
    by (rule load_knowledge_base_item)
  from parse_row_Inr [OF this] assms(3) obtain p where s: "s = strip p"
    by auto
  show ?thesis unfolding s using strip_ends [of p] by (simp add: strip_strip)
qed

theorem loaded_lists_stripped_witness:
  "load_knowledge_base (Inr [passport_row(''tags'' \<mapsto> PyStr ''a ; b'')])
     = Inr [passport\<lparr> tags := [''a'', ''b''] \<rparr>] \<and>
   strip ''b'' = ''b'' \<and> \<not> isspace (hd ''b'') \<and> \<not> isspace (last ''b'')"
proof -
  have loads: "load_knowledge_base (Inr [passport_row(''tags'' \<mapsto> PyStr ''a ; b'')])
     = Inr [passport\<lparr> tags := [''a'', ''b''] \<rparr>]"
    by (simp add: loader_defs)
  have mem: "passport\<lparr> tags := [''a'', ''b''] \<rparr> \<in> set [passport\<lparr> tags := [''a'', ''b''] \<rparr>]"
    by simp
  have elt: "''b'' \<in> set (season (passport\<lparr> tags := [''a'', ''b''] \<rparr>))
      \<union> set (tags (passport\<lparr> tags := [''a'', ''b''] \<rparr>))
      \<union> set (climate (passport\<lparr> tags := [''a'', ''b''] \<rparr>))"
    by simp
  from loaded_lists_stripped [OF loads mem elt] loads show ?thesis
    by simp
qed

text \<open>
  Claim C8, as the code has it: the quantity of a loaded item is the integer that
  \<^verbatim>\<open>int\<close> reads from the row's quantity cell, of either sign; a row whose quantity
  cell does not read as an integer ends the run with exit status 1, and no item list
  is returned.
\<close>

theorem quantity_is_parsed_integer:
  "(load_knowledge_base (Inr rows) = Inr items \<longrightarrow>
      list_all2 (\<lambda>r it. \<exists>q. r ''quantity'' = Some (PyStr q) \<and> py_int q = Some (quantity it))
        rows items) \<and>
   (bad \<in> set rows \<and> bad ''quantity'' = Some (PyStr q') \<and> py_int q' = None \<longrightarrow>
      load_knowledge_base (Inr rows) = Inl (SystemExit 1))"
proof (intro conjI impI)
  assume "load_knowledge_base (Inr rows) = Inr items"
  then have "list_all2 (\<lambda>r it. parse_row r = Inr it) rows items"
    by (simp add: load_knowledge_base_Inr)
  then show "list_all2 (\<lambda>r it. \<exists>q. r ''quantity'' = Some (PyStr q) \<and> py_int q = Some (quantity it))
      rows items"
    by (rule list_all2_mono) (use parse_row_Inr in blast)
next
  assume bad: "bad \<in> set rows \<and> bad ''quantity'' = Some (PyStr q') \<and> py_int q' = None"
  show "load_knowledge_base (Inr rows) = Inl (SystemExit 1)"
  proof (cases "load_knowledge_base (Inr rows)")
    case (Inl a)
    then show ?thesis using load_rows_Inl [of rows "[]" a]
      by (simp add: load_knowledge_base_def)
  next
    case (Inr items)
    then have all: "list_all2 (\<lambda>r it. parse_row r = Inr it) rows items"
      by (simp add: load_knowledge_base_Inr)
    from bad obtain k where k: "k < length rows" "rows ! k = bad"
      by (auto simp: in_set_conv_nth)
    with all have "parse_row bad = Inr (items ! k)"
      by (auto simp: list_all2_conv_all_nth)
    from parse_row_Inr [OF this] bad have False by auto
    then show ?thesis ..
  qed
qed

theorem quantity_is_parsed_integer_witness:
  "load_knowledge_base (Inr [passport_row(''quantity'' \<mapsto> PyStr '' 1_0 '')])
     = Inr [passport\<lparr> quantity := 10 \<rparr>] \<and>
   list_all2 (\<lambda>r it. \<exists>q. r ''quantity'' = Some (PyStr q) \<and> py_int q = Some (quantity it))
     [passport_row(''quantity'' \<mapsto> PyStr '' 1_0 '')] [passport\<lparr> quantity := 10 \<rparr>] \<and>
   py_int ''many'' = None \<and>
   load_knowledge_base (Inr [passport_row, passport_row(''quantity'' \<mapsto> PyStr ''many'')])
     = Inl (SystemExit 1)"
proof -
  have loads: "load_knowledge_base (Inr [passport_row(''quantity'' \<mapsto> PyStr '' 1_0 '')])
     = Inr [passport\<lparr> quantity := 10 \<rparr>]"
    by (simp add: loader_defs)
  have bad: "passport_row(''quantity'' \<mapsto> PyStr ''many'')
       \<in> set [passport_row, passport_row(''quantity'' \<mapsto> PyStr ''many'')] \<and>
     (passport_row(''quantity'' \<mapsto> PyStr ''many'')) ''quantity'' = Some (PyStr ''many'') \<and>
     py_int ''many'' = None"
    by (simp add: loader_defs)
  from quantity_is_parsed_integer
         [of "[passport_row(''quantity'' \<mapsto> PyStr '' 1_0 '')]" "[passport\<lparr> quantity := 10 \<rparr>]"]
       quantity_is_parsed_integer
         [of "[passport_row, passport_row(''quantity'' \<mapsto> PyStr ''many'')]" _
             "passport_row(''quantity'' \<mapsto> PyStr ''many'')" "''many''"]
       loads bad
  show ?thesis by blast
qed

text \<open>A quantity cell \<^verbatim>\<open>-5\<close> loads as the quantity -5, which is below 0.\<close>

theorem quantity_negative_counterexample:
  "load_knowledge_base (Inr [passport_row(''quantity'' \<mapsto> PyStr ''-5'')])
     = Inr [passport\<lparr> quantity := - 5 \<rparr>] \<and>
   quantity (passport\<lparr> quantity := - 5 \<rparr>) < 0"
  by (simp add: loader_defs)

section \<open>Properties of the embedder\<close>

lemma requests_simps [simp]:
  "requests [] = []"
  "requests (tr @ tr') = requests tr @ requests tr'"
  "requests [Create r] = [r]"
  "requests [Sleep d] = []"
  by (simp_all add: requests_def)

subsection \<open>The formatting loop\<close>

lemma copy_fields:
  "\<lparr> item = item it, category = category it, destination_type = destination_type it,
     travel_type = travel_type it, season = season it, quantity = quantity it,
     reason = reason it, importance = importance it, tags = tags it,
     climate = climate it \<rparr> = (it :: knowledge_item)"
  by (cases it) simp

lemma format_points_Cons:
  "format_points svc batch j (e # es) st =
     (if j < length batch then
        format_points svc batch (Suc j) es
          (st\<lparr> points := points st @
                  [\<lparr> point_id = uuid4 svc (uuids st), vector = e, payload = batch ! j \<rparr>],
               uuids := Suc (uuids st) \<rparr>)
      else (Some IndexError, st))"
  by (simp add: Let_def copy_fields)

declare format_points.simps(2) [simp del]

lemma format_points_frame:
  "format_points svc batch j d st = (r, st') \<Longrightarrow> calls st' = calls st \<and> trace st' = trace st"
proof (induction d arbitrary: j st)
  case Nil
  then show ?case by simp
next
  case (Cons e es)
  show ?case
  proof (cases "j < length batch")
    case True
    with Cons.prems have "format_points svc batch (Suc j) es
          (st\<lparr> points := points st @
                  [\<lparr> point_id = uuid4 svc (uuids st), vector = e, payload = batch ! j \<rparr>],
               uuids := Suc (uuids st) \<rparr>) = (r, st')"
      by (simp add: format_points_Cons)
    from Cons.IH [OF this] show ?thesis by simp
  next
    case False
    with Cons.prems show ?thesis by (simp add: format_points_Cons)
  qed
qed

lemma format_points_vectors:
  "format_points svc batch j d st = (r, st') \<Longrightarrow>
     set (map vector (points st')) \<subseteq> set (map vector (points st)) \<union> set d"
proof (induction d arbitrary: j st)
  case Nil
  then show ?case by simp
next
  case (Cons e es)
  show ?case
  proof (cases "j < length batch")
    case True
    with Cons.prems have "format_points svc batch (Suc j) es
          (st\<lparr> points := points st @
                  [\<lparr> point_id = uuid4 svc (uuids st), vector = e, payload = batch ! j \<rparr>],
               uuids := Suc (uuids st) \<rparr>) = (r, st')"
      by (simp add: format_points_Cons)
    from Cons.IH [OF this] show ?thesis by auto
  next
    case False
    with Cons.prems show ?thesis by (auto simp: format_points_Cons)
  qed
qed

lemma format_points_fits:
  "j + length d \<le> length batch \<Longrightarrow>
   \<exists>st'. format_points svc batch j d st = (None, st') \<and>
     map payload (points st') = map payload (points st) @ take (length d) (drop j batch) \<and>
     map vector (points st') = map vector (points st) @ d \<and>
     map point_id (points st') =
       map point_id (points st) @ map (uuid4 svc) [uuids st..<uuids st + length d] \<and>
     uuids st' = uuids st + length d"
proof (induction d arbitrary: j st)
  case Nil
  then show ?case by simp
next
  case (Cons e es)
  then have j: "j < length batch" and fits: "Suc j + length es \<le> length batch"
    by simp_all
  let ?p = "\<lparr> point_id = uuid4 svc (uuids st), vector = e, payload = batch ! j \<rparr>"
  let ?st = "st\<lparr> points := points st @ [?p], uuids := Suc (uuids st) \<rparr>"
  from Cons.IH [OF fits, of ?st] obtain st' where
    st': "format_points svc batch (Suc j) es ?st = (None, st')"
      "map payload (points st') = map payload (points ?st) @ take (length es) (drop (Suc j) batch)"
      "map vector (points st') = map vector (points ?st) @ es"
      "map point_id (points st') =
         map point_id (points ?st) @ map (uuid4 svc) [uuids ?st..<uuids ?st + length es]"
      "uuids st' = uuids ?st + length es"
    by blast
  have "format_points svc batch j (e # es) st = (None, st')"
    using j st'(1) by (simp add: format_points_Cons)
  moreover have "take (Suc (length es)) (drop j batch) = batch ! j # take (length es) (drop (Suc j) batch)"
    using j by (simp add: Cons_nth_drop_Suc [symmetric])
  moreover have "[uuids st..<uuids st + Suc (length es)] = uuids st # [Suc (uuids st)..<Suc (uuids st) + length es]"
    using upt_conv_Cons [of "uuids st" "uuids st + Suc (length es)"] by simp
  ultimately show ?case using st'(2-5) by simp
qed

subsection \<open>One attempt\<close>

lemma try_block_frame:
  assumes "try_block svc batch texts st = (r, st')"
  shows "calls st' = Suc (calls st) \<and> trace st' = trace st @ [Create (embedding_request texts)]"
proof (cases "embeddings_create svc (calls st) (embedding_request texts)")
  case Raises
  with assms show ?thesis by (auto simp: try_block_def Let_def)
next
  case (Data d)
  with assms have "format_points svc batch 0 d
      (st\<lparr> calls := Suc (calls st), trace := trace st @ [Create (embedding_request texts)] \<rparr>)
      = (r, st')"
    by (simp add: try_block_def Let_def)
  from format_points_frame [OF this] show ?thesis by simp
qed

lemma try_block_Raises:
  "embeddings_create svc (calls st) (embedding_request texts) = Raises \<Longrightarrow>
   try_block svc batch texts st =
     (Some APIError, st\<lparr> calls := Suc (calls st),
                         trace := trace st @ [Create (embedding_request texts)] \<rparr>)"
  by (simp add: try_block_def Let_def)

lemma try_block_Data:
  assumes "embeddings_create svc (calls st) (embedding_request texts) = Data d"
    and "length d \<le> length batch"
  shows "\<exists>st'. try_block svc batch texts st = (None, st') \<and>
     map payload (points st') = map payload (points st) @ take (length d) batch \<and>
     map vector (points st') = map vector (points st) @ d \<and>
     map point_id (points st') =
       map point_id (points st) @ map (uuid4 svc) [uuids st..<uuids st + length d] \<and>
     uuids st' = uuids st + length d"
  using format_points_fits [of 0 d batch svc
      "st\<lparr> calls := Suc (calls st), trace := trace st @ [Create (embedding_request texts)] \<rparr>"]
    assms
  by (simp add: try_block_def Let_def)

lemma try_block_vectors:
  assumes "try_block svc batch texts st = (r, st')"
    and "\<forall>n req d. embeddings_create svc n req = Data d \<longrightarrow> (\<forall>v\<in>set d. length v = dimensions req)"
    and "\<forall>p\<in>set (points st). length (vector p) = EMBEDDING_DIMENSIONS"
  shows "\<forall>p\<in>set (points st'). length (vector p) = EMBEDDING_DIMENSIONS"
proof (cases "embeddings_create svc (calls st) (embedding_request texts)")
  case Raises
  with assms(1,3) show ?thesis by (auto simp: try_block_Raises)
next
  case (Data d)
  with assms(2) have d: "\<forall>v\<in>set d. length v = EMBEDDING_DIMENSIONS"
    by (fastforce simp: embedding_request_def)
  from assms(1) Data have "format_points svc batch 0 d
      (st\<lparr> calls := Suc (calls st), trace := trace st @ [Create (embedding_request texts)] \<rparr>)
      = (r, st')"
    by (simp add: try_block_def Let_def)
  from format_points_vectors [OF this]
  have "set (map vector (points st')) \<subseteq> set (map vector (points st)) \<union> set d"
    by simp
  with d assms(3) show ?thesis by auto
qed

text \<open>Under the service's contract an attempt either appends the whole batch or nothing.\<close>

lemma try_block_contract:
  assumes "\<forall>n req d. embeddings_create svc n req = Data d \<longrightarrow> length d = length (input req)"
    and "length texts = length batch"
    and "try_block svc batch texts st = (r, st')"
  shows "(r = None \<longrightarrow>
            map payload (points st') = map payload (points st) @ batch \<and>
            map point_id (points st') =
              map point_id (points st) @ map (uuid4 svc) [uuids st..<uuids st + length batch] \<and>
            uuids st' = uuids st + length batch) \<and>
         (r \<noteq> None \<longrightarrow> points st' = points st \<and> uuids st' = uuids st)"
proof (cases "embeddings_create svc (calls st) (embedding_request texts)")
  case Raises
  with assms(3) show ?thesis by (auto simp: try_block_Raises)
next
  case (Data d)
  with assms(1,2) have "length d = length batch"
    by (fastforce simp: embedding_request_def)
  with try_block_Data [OF Data, of batch] assms(3) show ?thesis
    by auto
qed

subsection \<open>The retry loop\<close>

lemma attempts_Inr_induct [consumes 2, case_names succeed again]:
  assumes "attempts R svc batch texts [a..<R] st = Inr st'" and "a < R"
    and succeed: "\<And>a s s'. a < R \<Longrightarrow> try_block svc batch texts s = (None, s') \<Longrightarrow> P a s s'"
    and again: "\<And>a s e s2 s'. Suc a < R \<Longrightarrow> try_block svc batch texts s = (Some e, s2) \<Longrightarrow>
       P (Suc a) (s2\<lparr> trace := trace s2 @ [Sleep RETRY_DELAY] \<rparr>) s' \<Longrightarrow> P a s s'"
  shows "P a st st'"
  using assms(1,2)
proof (induction "R - a" arbitrary: a st)
  case 0
  then show ?case by simp
next
  case (Suc n)
  have list: "[a..<R] = a # [Suc a..<R]"
    using Suc.prems(2) by (simp add: upt_conv_Cons)
  obtain r s2 where tb: "try_block svc batch texts st = (r, s2)"
    by (cases "try_block svc batch texts st")
  show ?case
  proof (cases r)
    case None
    with Suc.prems tb list have "s2 = st'" by simp
    with None tb Suc.prems(2) show ?thesis by (auto intro: succeed)
  next
    case (Some e)
    with Suc.prems(1) tb list have lt: "Suc a < R"
      and rec: "attempts R svc batch texts [Suc a..<R] (s2\<lparr> trace := trace s2 @ [Sleep RETRY_DELAY] \<rparr>) = Inr st'"
      by (auto split: if_splits)
    from Suc.hyps(2) have "n = R - Suc a" by simp
    from Suc.hyps(1) [OF this rec lt] Some tb lt show ?thesis
      by (auto intro: again)
  qed
qed

lemma attempts_contract:
  assumes "\<forall>n req d. embeddings_create svc n req = Data d \<longrightarrow> length d = length (input req)"
    and "length texts = length batch"
    and "attempts R svc batch texts [a..<R] st = Inr st'" and "a < R"
  shows "map payload (points st') = map payload (points st) @ batch \<and>
         map point_id (points st') =
           map point_id (points st) @ map (uuid4 svc) [uuids st..<uuids st + length batch] \<and>
         uuids st' = uuids st + length batch"
  using assms(3,4)
proof (induction rule: attempts_Inr_induct)
  case (succeed a s s')
  with try_block_contract [OF assms(1,2), of s None s'] show ?case by simp
next
  case (again a s e s2 s')
  with try_block_contract [OF assms(1,2), of s "Some e" s2] show ?case by simp
qed

lemma attempts_calls:
  assumes "attempts R svc batch texts [a..<R] st = Inr st'" and "a < R"
  shows "\<exists>k. 1 \<le> k \<and> k \<le> R - a \<and> calls st' = calls st + k \<and>
           requests (trace st') = requests (trace st) @ replicate k (embedding_request texts)"
  using assms
proof (induction rule: attempts_Inr_induct)
  case (succeed a s s')
  with try_block_frame [of svc batch texts s None s'] show ?case
    by (intro exI [of _ 1]) simp
next
  case (again a s e s2 s')
  then obtain k where k: "1 \<le> k" "k \<le> R - Suc a" "calls s' = calls s2 + k"
    "requests (trace s') = requests (trace s2) @ replicate k (embedding_request texts)"
    by auto
  with try_block_frame [OF again(2)] again(1) show ?case
    by (intro exI [of _ "Suc k"]) (simp add: replicate_append_same)
qed

lemma attempts_vectors:
  assumes "attempts R svc batch texts [a..<R] st = Inr st'" and "a < R"
    and "\<forall>n req d. embeddings_create svc n req = Data d \<longrightarrow> (\<forall>v\<in>set d. length v = dimensions req)"
  shows "(\<forall>p\<in>set (points st). length (vector p) = EMBEDDING_DIMENSIONS) \<longrightarrow>
         (\<forall>p\<in>set (points st'). length (vector p) = EMBEDDING_DIMENSIONS)"
  using assms(1,2)
proof (induction rule: attempts_Inr_induct)
  case (succeed a s s')
  with try_block_vectors [OF _ assms(3)] show ?case by blast
next
  case (again a s e s2 s')
  with try_block_vectors [OF again(2) assms(3)] show ?case by simp
qed

lemma attempts_segment:
  assumes "attempts R svc batch texts [0..<R] st = Inr st'"
  shows "\<exists>seg. trace st' = trace st @ seg \<and> Sleep (1/2) \<notin> set seg \<and> (0 < R \<longrightarrow> seg \<noteq> [])"
proof (cases "0 < R")
  case False
  with assms show ?thesis by simp
next
  case True
  have "\<exists>seg. trace st' = trace st @ seg \<and> Sleep (1/2) \<notin> set seg \<and> seg \<noteq> []"
    using assms True
  proof (induction rule: attempts_Inr_induct)
    case (succeed a s s')
    with try_block_frame [of svc batch texts s None s'] show ?case by simp
  next
    case (again a s e s2 s')
    then obtain seg where "trace s' = (trace s2 @ [Sleep RETRY_DELAY]) @ seg" "Sleep (1/2) \<notin> set seg"
      by auto
    with try_block_frame [OF again(2)] show ?case
      by (simp add: RETRY_DELAY_def)
  qed
  then show ?thesis by blast
qed

subsection \<open>The batch starts and the loop over them\<close>

lemma py_range_Nil: "n \<le> i \<Longrightarrow> py_range i n B = []"
  by (simp add: py_range.simps)

lemma py_range_Cons: "0 < B \<Longrightarrow> i < n \<Longrightarrow> py_range i n B = i # py_range (i + B) n B"
  by (subst py_range.simps) simp

lemma div_up_step:
  assumes "0 < B" and "i < n"
  shows "(n - i + B - 1) div B = Suc ((n - (i + B) + B - 1) div B)"
proof -
  define m where "m = n - i - 1"
  have n: "n - i = Suc m" using assms(2) by (simp add: m_def)
  have l: "(n - i + B - 1) div B = Suc (m div B)"
    by (simp add: n assms(1))
  show ?thesis
  proof (cases "B \<le> Suc m")
    case True
    then have "n - (i + B) + B - 1 = m" using n by simp
    with l show ?thesis by simp
  next
    case False
    then have "n - (i + B) = 0" and "m < B" using n by simp_all
    with l assms(1) show ?thesis by simp
  qed
qed

lemma length_py_range: "0 < B \<Longrightarrow> length (py_range i n B) = (n - i + B - 1) div B"
proof (induction i n B rule: py_range.induct)
  case (1 i n B)
  show ?case
  proof (cases "i < n")
    case True
    with 1 have "length (py_range i n B) = Suc ((n - (i + B) + B - 1) div B)"
      by (simp add: py_range_Cons)
    also have "\<dots> = (n - i + B - 1) div B"
      using div_up_step [OF 1(2) True] by simp
    finally show ?thesis .
  next
    case False
    with 1(2) show ?thesis by (simp add: py_range_Nil)
  qed
qed

lemma ceiling_div_up:
  assumes "0 < B"
  shows "nat \<lceil>real N / real B\<rceil> = (N + B - 1) div B"
proof -
  define q where "q = (N + B - 1) div B"
  have split: "q * B + (N + B - 1) mod B = N + B - 1"
    by (simp add: q_def)
  have "(N + B - 1) mod B < B" using assms by simp
  with split assms have up: "N \<le> q * B" and low: "q * B < N + B"
    by linarith+
  from low have low': "real q * real B < real N + real B"
    by (metis of_nat_add of_nat_less_iff of_nat_mult)
  from up have up': "real N \<le> real q * real B"
    by (metis of_nat_le_iff of_nat_mult)
  have "\<lceil>real N / real B\<rceil> = int q"
  proof (rule ceiling_unique)
    have "(real q - 1) * real B < real N"
      using low' by (simp add: algebra_simps)
    then have "real q - 1 < real N / real B"
      using assms by (simp add: pos_less_divide_eq)
    then show "of_int (int q) - 1 < real N / real B"
      by simp
    show "real N / real B \<le> of_int (int q)"
      using up' assms by (simp add: pos_divide_le_eq)
  qed
  then show ?thesis by (simp add: q_def)
qed

lemma py_range_bound: "0 < B \<Longrightarrow> k \<in> set (py_range i n B) \<Longrightarrow> i \<le> k \<and> k < n"
proof (induction i n B rule: py_range.induct)
  case (1 i n B)
  show ?case
  proof (cases "i < n")
    case True
    with 1 show ?thesis by (auto simp: py_range_Cons)
  next
    case False
    with 1(3) show ?thesis by (simp add: py_range_Nil)
  qed
qed

lemma concat_batches:
  "0 < B \<Longrightarrow>
   concat (map (\<lambda>i. take B (drop i items)) (py_range i (length items) B)) = drop i items"
proof (induction i "length items" B rule: py_range.induct)
  case (1 i B)
  show ?case
  proof (cases "i < length items")
    case True
    have "take B (drop i items) @ drop (i + B) items = drop i items"
      by (metis add.commute append_take_drop_id drop_drop)
    with True 1 show ?thesis by (simp add: py_range_Cons)
  next
    case False
    then show ?thesis by (simp add: py_range_Nil)
  qed
qed

lemma batches_Inr_induct [consumes 2, case_names last_batch next_batch no_batch]:
  assumes "batches B R svc items (py_range i (length items) B) st = Inr st'" and "0 < B"
    and last_batch: "\<And>i s s'. i < length items \<Longrightarrow> \<not> i + B < length items \<Longrightarrow>
       attempts R svc (take B (drop i items)) (map create_embedding_text (take B (drop i items)))
         [0..<R] s = Inr s' \<Longrightarrow> P i s s'"
    and next_batch: "\<And>i s s1 s'. i + B < length items \<Longrightarrow>
       attempts R svc (take B (drop i items)) (map create_embedding_text (take B (drop i items)))
         [0..<R] s = Inr s1 \<Longrightarrow>
       P (i + B) (s1\<lparr> trace := trace s1 @ [Sleep (1/2)] \<rparr>) s' \<Longrightarrow> P i s s'"
    and no_batch: "\<And>i s. length items \<le> i \<Longrightarrow> P i s s"
  shows "P i st st'"
  using assms(1)
proof (induction "length items - i" arbitrary: i st rule: less_induct)
  case less
  note B = \<open>0 < B\<close>
  show ?case
  proof (cases "i < length items")
    case False
    with less(2) have "st' = st" by (simp add: py_range_Nil)
    with False show ?thesis by (auto intro: no_batch)
  next
    case True
    let ?batch = "take B (drop i items)"
    have pr: "py_range i (length items) B = i # py_range (i + B) (length items) B"
      using B True by (rule py_range_Cons)
    from less(2) obtain s1 where
      att: "attempts R svc ?batch (map create_embedding_text ?batch) [0..<R] st = Inr s1"
      and rest: "batches B R svc items (py_range (i + B) (length items) B)
         (if i + B < length items then s1\<lparr> trace := trace s1 @ [Sleep (1/2)] \<rparr> else s1) = Inr st'"
      unfolding pr by (auto simp: Let_def split: sum.splits)
    show ?thesis
    proof (cases "i + B < length items")
      case True
      with B \<open>i < length items\<close> have "length items - (i + B) < length items - i"
        by simp
      from less(1) [OF this] rest True
      have "P (i + B) (s1\<lparr> trace := trace s1 @ [Sleep (1/2)] \<rparr>) st'" by simp
      with True att show ?thesis by (rule next_batch)
    next
      case False
      with rest have "s1 = st'" by (simp add: py_range_Nil)
      with att False \<open>i < length items\<close> show ?thesis by (auto intro: last_batch)
    qed
  qed
qed

subsection \<open>Completed runs\<close>

lemma last_batch_is_rest: "\<not> i + B < length items \<Longrightarrow> take B (drop i items) = drop i items"
  by simp

lemma batch_then_rest: "take B (drop i items) @ drop (i + B) items = drop i items"
  by (metis add.commute append_take_drop_id drop_drop)

lemma batches_contract:
  assumes "batches B R svc items (py_range i (length items) B) st = Inr st'" and "0 < B"
    and "\<forall>n req d. embeddings_create svc n req = Data d \<longrightarrow> length d = length (input req)"
    and "0 < R"
  shows "map payload (points st') = map payload (points st) @ drop i items \<and>
         map point_id (points st') =
           map point_id (points st) @ map (uuid4 svc) [uuids st..<uuids st + (length items - i)] \<and>
         uuids st' = uuids st + (length items - i)"
  using assms(1,2)
proof (induction rule: batches_Inr_induct)
  case (last_batch i s s')
  from attempts_contract [OF assms(3) _ last_batch(3) assms(4)] last_batch(1,2)
  show ?case by simp
next
  case (next_batch i s s1 s')
  have "length (take B (drop i items)) = B"
    using next_batch(1) by simp
  with attempts_contract [OF assms(3) _ next_batch(2) assms(4)]
  have s1: "map payload (points s1) = map payload (points s) @ take B (drop i items)"
    "map point_id (points s1) = map point_id (points s) @ map (uuid4 svc) [uuids s..<uuids s + B]"
    "uuids s1 = uuids s + B"
    by simp_all
  have "[uuids s..<uuids s + (length items - i)]
      = [uuids s..<uuids s + B] @ [uuids s + B..<uuids s + B + (length items - (i + B))]"
    using next_batch(1) upt_add_eq_append [of "uuids s" "uuids s + B" "length items - (i + B)"]
    by simp
  with next_batch(1,3) s1 batch_then_rest [of B i items] show ?case
    by simp
next
  case (no_batch i s)
  then show ?case by simp
qed

lemma attempts_vectors0:
  assumes "attempts R svc batch texts [0..<R] st = Inr st'"
    and "\<forall>n req d. embeddings_create svc n req = Data d \<longrightarrow> (\<forall>v\<in>set d. length v = dimensions req)"
    and "\<forall>p\<in>set (points st). length (vector p) = EMBEDDING_DIMENSIONS"
  shows "\<forall>p\<in>set (points st'). length (vector p) = EMBEDDING_DIMENSIONS"
proof (cases "0 < R")
  case True
  from attempts_vectors [OF assms(1) True assms(2)] assms(3) show ?thesis by blast
next
  case False
  with assms(1,3) show ?thesis by simp
qed

lemma batches_vectors:
  assumes "batches B R svc items (py_range i (length items) B) st = Inr st'" and "0 < B"
    and "\<forall>n req d. embeddings_create svc n req = Data d \<longrightarrow> (\<forall>v\<in>set d. length v = dimensions req)"
  shows "(\<forall>p\<in>set (points st). length (vector p) = EMBEDDING_DIMENSIONS) \<longrightarrow>
         (\<forall>p\<in>set (points st'). length (vector p) = EMBEDDING_DIMENSIONS)"
  using assms(1,2)
proof (induction rule: batches_Inr_induct)
  case (last_batch i s s')
  from attempts_vectors0 [OF last_batch(3) assms(3)] show ?case by blast
next
  case (next_batch i s s1 s')
  from attempts_vectors0 [OF next_batch(2) assms(3)] next_batch(3) show ?case by simp
next
  case (no_batch i s)
  then show ?case by simp
qed

lemma py_range_single: "0 < B \<Longrightarrow> i < n \<Longrightarrow> \<not> i + B < n \<Longrightarrow> py_range i n B = [i]"
  by (simp add: py_range_Cons py_range_Nil)

lemma join_Cons: "ys \<noteq> [] \<Longrightarrow> join sep (x # ys) = x @ sep @ join sep ys"
  by (cases ys) simp_all

lemma count_join:
  "\<forall>seg\<in>set segs. x \<notin> set seg \<Longrightarrow> count_list (join [x] segs) x = length segs - 1"
  by (induction "[x]" segs rule: join.induct) simp_all

lemma batches_segments:
  assumes "batches B R svc items (py_range i (length items) B) st = Inr st'" and "0 < B"
  shows "\<exists>segs. length segs = length (py_range i (length items) B) \<and>
           (\<forall>seg\<in>set segs. Sleep (1/2) \<notin> set seg \<and> (0 < R \<longrightarrow> seg \<noteq> [])) \<and>
           trace st' = trace st @ join [Sleep (1/2)] segs"
  using assms(1,2)
proof (induction rule: batches_Inr_induct)
  case (last_batch i s s')
  from attempts_segment [OF last_batch(3)] obtain seg where
    "trace s' = trace s @ seg" "Sleep (1/2) \<notin> set seg" "0 < R \<longrightarrow> seg \<noteq> []"
    by blast
  with last_batch(1,2) assms(2) show ?case
    by (intro exI [of _ "[seg]"]) (simp add: py_range_single)
next
  case (next_batch i s s1 s')
  from attempts_segment [OF next_batch(2)] obtain seg where
    seg: "trace s1 = trace s @ seg" "Sleep (1/2) \<notin> set seg" "0 < R \<longrightarrow> seg \<noteq> []"
    by blast
  from next_batch(3) obtain segs where
    segs: "length segs = length (py_range (i + B) (length items) B)"
      "\<forall>seg\<in>set segs. Sleep (1/2) \<notin> set seg \<and> (0 < R \<longrightarrow> seg \<noteq> [])"
      "trace s' = (trace s1 @ [Sleep (1/2)]) @ join [Sleep (1/2)] segs"
    by auto
  have range: "py_range i (length items) B = i # py_range (i + B) (length items) B"
    using next_batch(1) assms(2) by (simp add: py_range_Cons)
  have "py_range (i + B) (length items) B \<noteq> []"
    using next_batch(1) assms(2) by (simp add: py_range_Cons)
  with segs(1) have "segs \<noteq> []" by auto
  with seg segs range show ?case
    by (intro exI [of _ "seg # segs"]) (simp add: join_Cons)
next
  case (no_batch i s)
  then show ?case by (intro exI [of _ "[]"]) (simp add: py_range_Nil)
qed

lemma batches_calls:
  assumes "batches B R svc items (py_range i (length items) B) st = Inr st'" and "0 < B"
    and "0 < R"
  shows "\<exists>ks. length ks = length (py_range i (length items) B) \<and>
           (\<forall>k\<in>set ks. 1 \<le> k \<and> k \<le> R) \<and>
           calls st' = calls st + sum_list ks \<and>
           requests (trace st') = requests (trace st) @
             concat (map2 (\<lambda>k j. replicate k
                       (embedding_request (map create_embedding_text (take B (drop j items)))))
                     ks (py_range i (length items) B))"
  using assms(1,2)
proof (induction rule: batches_Inr_induct)
  case (last_batch i s s')
  from attempts_calls [OF last_batch(3) assms(3)] obtain k where
    "1 \<le> k" "k \<le> R" "calls s' = calls s + k"
    "requests (trace s') = requests (trace s) @ replicate k
       (embedding_request (map create_embedding_text (take B (drop i items))))"
    by auto
  with last_batch(1,2) assms(2) show ?case
    by (intro exI [of _ "[k]"]) (simp add: py_range_single)
next
  case (next_batch i s s1 s')
  from attempts_calls [OF next_batch(2) assms(3)] obtain k where
    k: "1 \<le> k" "k \<le> R" "calls s1 = calls s + k"
    "requests (trace s1) = requests (trace s) @ replicate k
       (embedding_request (map create_embedding_text (take B (drop i items))))"
    by auto
  from next_batch(3) obtain ks where
    ks: "length ks = length (py_range (i + B) (length items) B)"
      "\<forall>k\<in>set ks. 1 \<le> k \<and> k \<le> R"
      "calls s' = calls s1 + sum_list ks"
      "requests (trace s') = requests (trace s1) @
         concat (map2 (\<lambda>k j. replicate k
                   (embedding_request (map create_embedding_text (take B (drop j items)))))
                 ks (py_range (i + B) (length items) B))"
    by auto
  have range: "py_range i (length items) B = i # py_range (i + B) (length items) B"
    using next_batch(1) assms(2) by (simp add: py_range_Cons)
  from k ks show ?case unfolding range
    by (intro exI [of _ "k # ks"]) simp
next
  case (no_batch i s)
  then show ?case by (intro exI [of _ "[]"]) (simp add: py_range_Nil)
qed

subsection \<open>Failing and succeeding attempts\<close>

lemma points_eqI:
  fixes xs ys :: "'v point list"
  assumes "map payload xs = map payload ys" and "map vector xs = map vector ys"
    and "map point_id xs = map point_id ys"
  shows "xs = ys"
  using assms
proof (induction xs arbitrary: ys)
  case Nil
  then show ?case by simp
next
  case (Cons x xs)
  then obtain y ys' where ys: "ys = y # ys'" by (cases ys) auto
  with Cons.prems have "x = y" by simp
  with Cons ys show ?case by simp
qed

lemma attempts_Data:
  assumes "embeddings_create svc (calls st) (embedding_request texts) = Data d"
    and "length d \<le> length batch" and "a < R"
  shows "\<exists>st'. attempts R svc batch texts [a..<R] st = Inr st' \<and>
           try_block svc batch texts st = (None, st')"
proof -
  from try_block_Data [OF assms(1,2)] obtain st' where
    "try_block svc batch texts st = (None, st')" by blast
  moreover have "[a..<R] = a # [Suc a..<R]"
    using assms(3) by (simp add: upt_conv_Cons)
  ultimately show ?thesis by simp
qed

lemma attempts_Raises:
  assumes "embeddings_create svc (calls st) (embedding_request texts) = Raises"
  shows "attempts R svc batch texts (a # rest) st =
     (if int a < int R - 1
      then attempts R svc batch texts rest
             (st\<lparr> calls := Suc (calls st),
                  trace := trace st @ [Create (embedding_request texts), Sleep RETRY_DELAY] \<rparr>)
      else Inl (SystemExit 1))"
  by (simp add: try_block_Raises [OF assms])

lemma attempts_after_failures:
  assumes "\<forall>k<m. embeddings_create svc (calls st + k) (embedding_request texts) = Raises"
    and "a + m < R"
  shows "attempts R svc batch texts [a..<R] st =
     attempts R svc batch texts [a + m..<R]
       (st\<lparr> calls := calls st + m,
            trace := trace st @
              concat (replicate m [Create (embedding_request texts), Sleep RETRY_DELAY]) \<rparr>)"
  using assms
proof (induction m arbitrary: a st)
  case 0
  then show ?case by simp
next
  case (Suc m)
  let ?st = "st\<lparr> calls := Suc (calls st),
                 trace := trace st @ [Create (embedding_request texts), Sleep RETRY_DELAY] \<rparr>"
  have first: "embeddings_create svc (calls st) (embedding_request texts) = Raises"
    using Suc.prems(1) [rule_format, of 0] by simp
  have list: "[a..<R] = a # [Suc a..<R]"
    using Suc.prems(2) by (simp add: upt_conv_Cons)
  have later: "\<forall>k<m. embeddings_create svc (calls ?st + k) (embedding_request texts) = Raises"
  proof (intro allI impI)
    fix k assume "k < m"
    then have "Suc k < Suc m" by simp
    with Suc.prems(1) have "embeddings_create svc (calls st + Suc k) (embedding_request texts) = Raises"
      by blast
    then show "embeddings_create svc (calls ?st + k) (embedding_request texts) = Raises"
      by simp
  qed
  have "attempts R svc batch texts [a..<R] st = attempts R svc batch texts [Suc a..<R] ?st"
    unfolding list by (subst attempts_Raises [OF first]) (use Suc.prems(2) in simp)
  also have "\<dots> = attempts R svc batch texts [Suc a + m..<R]
       (?st\<lparr> calls := calls ?st + m,
             trace := trace ?st @
               concat (replicate m [Create (embedding_request texts), Sleep RETRY_DELAY]) \<rparr>)"
  proof (rule Suc.IH [OF later])
    show "Suc a + m < R" using Suc.prems(2) by simp
  qed
  finally show ?case by simp
qed

lemma attempts_all_fail:
  assumes "0 < R"
    and "\<forall>k<R. embeddings_create svc (calls st + k) (embedding_request texts) = Raises"
  shows "attempts R svc batch texts [0..<R] st = Inl (SystemExit 1)"
proof -
  let ?st = "st\<lparr> calls := calls st + (R - 1),
                 trace := trace st @
                   concat (replicate (R - 1) [Create (embedding_request texts), Sleep RETRY_DELAY]) \<rparr>"
  have "attempts R svc batch texts [0..<R] st = attempts R svc batch texts [0 + (R - 1)..<R] ?st"
  proof (rule attempts_after_failures)
    show "\<forall>k<R - 1. embeddings_create svc (calls st + k) (embedding_request texts) = Raises"
      using assms(2) by simp
    show "0 + (R - 1) < R" using assms(1) by simp
  qed
  moreover have "[0 + (R - 1)..<R] = [R - 1]"
    using assms(1) by (simp add: upt_conv_Cons)
  moreover have "embeddings_create svc (calls ?st) (embedding_request texts) = Raises"
    using assms(1) assms(2) [rule_format, of "R - 1"] by simp
  then have "attempts R svc batch texts [R - 1] ?st = Inl (SystemExit 1)"
    by (subst attempts_Raises) (use assms(1) in \<open>simp_all add: of_nat_diff\<close>)
  ultimately show ?thesis
    by simp
qed

lemma attempts_retry_same_points:
  assumes "0 < R"
    and "\<forall>k<R - 1. embeddings_create svc (calls st + k) (embedding_request texts) = Raises"
    and "embeddings_create svc (calls st + (R - 1)) (embedding_request texts) = Data d"
    and "embeddings_create svc' (calls st) (embedding_request texts) = Data d"
    and "uuid4 svc' = uuid4 svc"
    and "length d \<le> length batch"
  shows "\<exists>s s'. attempts R svc batch texts [0..<R] st = Inr s \<and>
           attempts R svc' batch texts [0..<R] st = Inr s' \<and> points s = points s'"
proof -
  let ?st = "st\<lparr> calls := calls st + (R - 1),
                 trace := trace st @
                   concat (replicate (R - 1) [Create (embedding_request texts), Sleep RETRY_DELAY]) \<rparr>"
  have skip: "attempts R svc batch texts [0..<R] st = attempts R svc batch texts [0 + (R - 1)..<R] ?st"
  proof (rule attempts_after_failures)
    show "\<forall>k<R - 1. embeddings_create svc (calls st + k) (embedding_request texts) = Raises"
      by (rule assms(2))
    show "0 + (R - 1) < R" using assms(1) by simp
  qed
  have data: "embeddings_create svc (calls ?st) (embedding_request texts) = Data d"
    using assms(3) by simp
  have "0 + (R - 1) < R" using assms(1) by simp
  from attempts_Data [OF data assms(6) this] obtain s where
    s: "attempts R svc batch texts [0 + (R - 1)..<R] ?st = Inr s"
      "try_block svc batch texts ?st = (None, s)"
    by auto
  from attempts_Data [OF assms(4,6) assms(1)] obtain s' where
    s': "attempts R svc' batch texts [0..<R] st = Inr s'"
      "try_block svc' batch texts st = (None, s')"
    by auto
  from try_block_Data [OF data assms(6)] s(2)
  have f: "map payload (points s) = map payload (points st) @ take (length d) batch"
    "map vector (points s) = map vector (points st) @ d"
    "map point_id (points s) = map point_id (points st) @ map (uuid4 svc) [uuids st..<uuids st + length d]"
    by auto
  from try_block_Data [OF assms(4,6)] s'(2)
  have f': "map payload (points s') = map payload (points st) @ take (length d) batch"
    "map vector (points s') = map vector (points st) @ d"
    "map point_id (points s') = map point_id (points st) @ map (uuid4 svc') [uuids st..<uuids st + length d]"
    by auto
  from f f' assms(5) have "points s = points s'"
    by (intro points_eqI) simp_all
  with skip s(1) s'(1) show ?thesis by simp
qed

subsection \<open>Runs that abort, runs without failures\<close>

lemma attempts_Inl: "attempts R svc batch texts as st = Inl a \<Longrightarrow> a = SystemExit 1"
proof (induction as arbitrary: st)
  case Nil
  then show ?case by simp
next
  case (Cons x xs)
  obtain r s2 where "try_block svc batch texts st = (r, s2)"
    by (cases "try_block svc batch texts st")
  with Cons show ?case
    by (cases r) (auto split: if_splits)
qed

lemma batches_Inl: "batches B R svc items is st = Inl a \<Longrightarrow> a = SystemExit 1"
proof (induction "is" arbitrary: st)
  case Nil
  then show ?case by simp
next
  case (Cons i rest)
  let ?batch = "take B (drop i items)"
  show ?case
  proof (cases "attempts R svc ?batch (map create_embedding_text ?batch) [0..<R] st")
    case (Inl b)
    with Cons.prems have "a = b" by (simp add: Let_def)
    with attempts_Inl [OF Inl] show ?thesis by simp
  next
    case (Inr s1)
    with Cons.prems have "batches B R svc items rest
        (if i + B < length items then s1\<lparr> trace := trace s1 @ [Sleep (1/2)] \<rparr> else s1) = Inl a"
      by (simp add: Let_def)
    then show ?thesis by (rule Cons.IH)
  qed
qed

lemma batches_append:
  "batches B R svc items (xs @ ys) st =
     (case batches B R svc items xs st of
        Inl a \<Rightarrow> Inl a
      | Inr s \<Rightarrow> batches B R svc items ys s)"
proof (induction xs arbitrary: st)
  case Nil
  then show ?case by simp
next
  case (Cons i rest)
  let ?batch = "take B (drop i items)"
  show ?case
  proof (cases "attempts R svc ?batch (map create_embedding_text ?batch) [0..<R] st")
    case (Inl b)
    then show ?thesis by (simp add: Let_def)
  next
    case (Inr s1)
    then show ?thesis by (simp add: Let_def Cons.IH)
  qed
qed

lemma batches_abort:
  assumes "0 < R"
    and "batches B R svc items pre st = Inr st1"
    and "\<forall>k<R. embeddings_create svc (calls st1 + k)
           (embedding_request (map create_embedding_text (take B (drop i items)))) = Raises"
  shows "batches B R svc items (pre @ i # post) st = Inl (SystemExit 1)"
  using assms(2) attempts_all_fail [OF assms(1,3)]
  by (simp add: batches_append Let_def)

lemma batches_no_failure:
  assumes "\<forall>n req. \<exists>d. embeddings_create svc n req = Data d \<and> length d \<le> length (input req)"
    and "0 < R"
  shows "\<exists>st'. batches B R svc items is st = Inr st' \<and> calls st' = calls st + length is"
proof (induction "is" arbitrary: st)
  case Nil
  then show ?case by simp
next
  case (Cons i rest)
  let ?batch = "take B (drop i items)"
  let ?texts = "map create_embedding_text ?batch"
  from assms(1) obtain d where
    d: "embeddings_create svc (calls st) (embedding_request ?texts) = Data d"
      "length d \<le> length (input (embedding_request ?texts))"
    by blast
  then have fits: "length d \<le> length ?batch"
    by (simp add: embedding_request_def)
  from attempts_Data [OF d(1) fits assms(2)] obtain s1 where
    s1: "attempts R svc ?batch ?texts [0..<R] st = Inr s1" "try_block svc ?batch ?texts st = (None, s1)"
    by blast
  from try_block_frame [OF s1(2)] have c: "calls s1 = Suc (calls st)" by simp
  let ?s = "if i + B < length items then s1\<lparr> trace := trace s1 @ [Sleep (1/2)] \<rparr> else s1"
  from Cons [of ?s] obtain st' where
    "batches B R svc items rest ?s = Inr st'" "calls st' = calls ?s + length rest"
    by blast
  with s1(1) c show ?case by (simp add: Let_def)
qed

lemma script_abort:
  assumes "OPENAI_API_KEY w = Some key" and "key \<noteq> []"
    and "load_knowledge_base (csv_file w) = Inr loaded"
    and "generate_embeddings (services w) loaded key = Inl a"
  shows "script w fs = (1, fs)"
proof -
  from assms(4) have "a = SystemExit 1 \<or> a = Uncaught ValueError"
    by (auto simp: generate_embeddings_def embed_with_def split: if_splits dest: batches_Inl)
  with assms show ?thesis
    by (auto simp: script_def main_def split: option.splits)
qed

section \<open>Points, batches and retries of a run\<close>

lemma three_attempts: "[0..<3] = [0, 1, 2]"
  by (simp add: upt_rec)

lemmas embedder_defs = three_attempts embed_with_def generate_embeddings_def try_block_def embedding_request_def
  flaky_def down_def format_points_Cons py_range.simps Let_def BATCH_SIZE_def RETRY_ATTEMPTS_def
  three_items_def four_items_def

lemma embed_with_Inr:
  "embed_with B R svc items = Inr st \<longleftrightarrow>
     0 < B \<and> batches B R svc items (py_range 0 (length items) B)
               \<lparr> points = [], calls = 0, uuids = 0, trace = [] \<rparr> = Inr st"
  by (simp add: embed_with_def)

lemma batch_count: "0 < B \<Longrightarrow> length (py_range 0 n B) = nat \<lceil>real n / real B\<rceil>"
  by (simp add: length_py_range ceiling_div_up)

text \<open>
  Claim C1: in a run that is not aborted, with a service that answers each request with
  one vector per text, the points are the items in input order, one point per item, each
  payload equal to its item in all ten fields; the identifiers are the ones drawn, in order.
\<close>

theorem points_match_items:
  assumes "embed_with B R svc items = Inr st" and "0 < R"
    and "\<forall>n req d. embeddings_create svc n req = Data d \<longrightarrow> length d = length (input req)"
  shows "map payload (points st) = items \<and> length (points st) = length items \<and>
         map point_id (points st) = map (uuid4 svc) [0..<length items]"
proof -
  from assms(1) have B: "0 < B"
    and run: "batches B R svc items (py_range 0 (length items) B)
                \<lparr> points = [], calls = 0, uuids = 0, trace = [] \<rparr> = Inr st"
    by (simp_all add: embed_with_Inr)
  from batches_contract [OF run B assms(3,2)]
  have p: "map payload (points st) = items"
    and i: "map point_id (points st) = map (uuid4 svc) [0..<length items]"
    by simp_all
  from p have "length (points st) = length items" by (metis length_map)
  with p i show ?thesis by simp
qed

theorem points_match_items_witness:
  "\<not> isl (embed_with 2 3 (flaky 1) three_items) \<and>
   map payload (points (projr (embed_with 2 3 (flaky 1) three_items))) = three_items \<and>
   length (points (projr (embed_with 2 3 (flaky 1) three_items))) = 3 \<and>
   map point_id (points (projr (embed_with 2 3 (flaky 1) three_items))) = [''u'', ''uu'', ''uuu'']"
proof -
  have ok: "\<not> isl (embed_with 2 3 (flaky 1) three_items)"
    by (simp add: embedder_defs)
  then have run: "embed_with 2 3 (flaky 1) three_items
      = Inr (projr (embed_with 2 3 (flaky 1) three_items))"
    by simp
  have contract: "\<forall>n req d. embeddings_create (flaky 1) n req = Data d \<longrightarrow>
      length d = length (input req)"
    by (auto simp: flaky_def)
  have R: "(0::nat) < 3" by simp
  from points_match_items [OF run R contract] ok show ?thesis
    by (simp add: three_items_def upt_rec flaky_def)
qed

text \<open>
  Claim C6: in a run that is not aborted, with a service that returns vectors of the
  requested dimensionality, every point's vector has length 1536.
\<close>

theorem vectors_have_configured_length:
  assumes "embed_with B R svc items = Inr st"
    and "\<forall>n req d. embeddings_create svc n req = Data d \<longrightarrow>
           (\<forall>v\<in>set d. length v = dimensions req)"
  shows "\<forall>p\<in>set (points st). length (vector p) = 1536"
proof -
  from assms(1) have B: "0 < B"
    and run: "batches B R svc items (py_range 0 (length items) B)
                \<lparr> points = [], calls = 0, uuids = 0, trace = [] \<rparr> = Inr st"
    by (simp_all add: embed_with_Inr)
  from batches_vectors [OF run B assms(2)] show ?thesis
    by (simp add: EMBEDDING_DIMENSIONS_def)
qed

theorem vectors_have_configured_length_witness:
  "\<not> isl (generate_embeddings (flaky 2) [passport] ''sk-example'') \<and>
   length (points (projr (generate_embeddings (flaky 2) [passport] ''sk-example''))) = 1 \<and>
   length (vector (hd (points (projr (generate_embeddings (flaky 2) [passport] ''sk-example''))))) = 1536"
proof -
  let ?run = "generate_embeddings (flaky 2) [passport] ''sk-example''"
  have ok: "\<not> isl ?run" and n: "length (points (projr ?run)) = 1"
    by (simp_all add: embedder_defs)
  from ok have run: "embed_with BATCH_SIZE RETRY_ATTEMPTS (flaky 2) [passport] = Inr (projr ?run)"
    by (simp add: generate_embeddings_def)
  have dims: "\<forall>n req d. embeddings_create (flaky 2) n req = Data d \<longrightarrow>
      (\<forall>v\<in>set d. length v = dimensions req)"
    by (auto simp: flaky_def)
  from n have "hd (points (projr ?run)) \<in> set (points (projr ?run))"
    by (cases "points (projr ?run)") simp_all
  with vectors_have_configured_length [OF run dims] ok n show ?thesis
    by blast
qed

text \<open>
  Claim C9: in a run that is not aborted the inter-batch sleep of half a second happens
  exactly max(ceil(N/B) - 1, 0) times, also when N is a multiple of B; the trace is the
  events of the batches, one segment per batch, joined by that sleep, so the sleep stands
  between successive batches and never after the last one.
\<close>

theorem inter_batch_sleeps:
  assumes "embed_with B R svc items = Inr st"
  shows "int (count_list (trace st) (Sleep (1/2)))
           = max (\<lceil>real (length items) / real B\<rceil> - 1) 0 \<and>
         (\<exists>segs. length segs = nat \<lceil>real (length items) / real B\<rceil> \<and>
            (\<forall>seg\<in>set segs. Sleep (1/2) \<notin> set seg \<and> (0 < R \<longrightarrow> seg \<noteq> [])) \<and>
            trace st = join [Sleep (1/2)] segs)"
proof -
  from assms(1) have B: "0 < B"
    and run: "batches B R svc items (py_range 0 (length items) B)
                \<lparr> points = [], calls = 0, uuids = 0, trace = [] \<rparr> = Inr st"
    by (simp_all add: embed_with_Inr)
  from batches_segments [OF run B] obtain segs where
    segs: "length segs = length (py_range 0 (length items) B)"
      "\<forall>seg\<in>set segs. Sleep (1/2) \<notin> set seg \<and> (0 < R \<longrightarrow> seg \<noteq> [])"
      "trace st = join [Sleep (1/2)] segs"
    by auto
  from segs(1) have len: "length segs = nat \<lceil>real (length items) / real B\<rceil>"
    by (simp add: batch_count [OF B])
  from segs(2) have "count_list (join [Sleep (1/2)] segs) (Sleep (1/2)) = length segs - 1"
    by (intro count_join) simp
  with segs(3) len have "count_list (trace st) (Sleep (1/2))
      = nat \<lceil>real (length items) / real B\<rceil> - 1"
    by simp
  moreover have "0 \<le> \<lceil>real (length items) / real B\<rceil>"
  proof -
    have "0 \<le> real (length items) / real B" by simp
    then have "- 1 < real (length items) / real B" by linarith
    then show ?thesis by simp
  qed
  ultimately have "int (count_list (trace st) (Sleep (1/2)))
      = max (\<lceil>real (length items) / real B\<rceil> - 1) 0"
    by linarith
  with segs len show ?thesis by blast
qed

theorem inter_batch_sleeps_witness:
  "\<not> isl (embed_with 2 3 (flaky 1) four_items) \<and>
   max (\<lceil>real (length four_items) / real (2::nat)\<rceil> - 1) 0 = 1 \<and>
   count_list (trace (projr (embed_with 2 3 (flaky 1) four_items))) (Sleep (1/2)) = 1"
proof -
  have ok: "\<not> isl (embed_with 2 3 (flaky 1) four_items)"
    by (simp add: embedder_defs)
  then have run: "embed_with 2 3 (flaky 1) four_items
      = Inr (projr (embed_with 2 3 (flaky 1) four_items))"
    by simp
  have c: "max (\<lceil>real (length four_items) / real (2::nat)\<rceil> - 1) 0 = 1"
    by (simp add: four_items_def)
  from inter_batch_sleeps [OF run] c ok show ?thesis
    by simp
qed

text \<open>
  Claim C2, as the code has it: the items are cut into ceil(N/B) contiguous batches of
  at least one and at most B items, whose concatenation in loop order is the item list;
  no item means no batch, no call and no point. In a run that is not aborted batch number
  i is requested \<open>k\<^sub>i\<close> times in a row, with \<open>1 \<le> k\<^sub>i \<le> RETRY_ATTEMPTS\<close> (one call and one
  more for each failed attempt), the batches in order, so the number of service calls is
  the sum of the \<open>k\<^sub>i\<close>; when no call fails the run completes with exactly ceil(N/B) calls.
\<close>

theorem batching:
  assumes "0 < B"
  shows "length (py_range 0 (length items) B) = nat \<lceil>real (length items) / real B\<rceil> \<and>
    (\<forall>i\<in>set (py_range 0 (length items) B).
        take B (drop i items) \<noteq> [] \<and> length (take B (drop i items)) \<le> B) \<and>
    concat (map (\<lambda>i. take B (drop i items)) (py_range 0 (length items) B)) = items \<and>
    embed_with B R svc [] = Inr \<lparr> points = [], calls = 0, uuids = 0, trace = [] \<rparr> \<and>
    (0 < R \<and> embed_with B R svc items = Inr st \<longrightarrow>
       (\<exists>ks. length ks = nat \<lceil>real (length items) / real B\<rceil> \<and>
          (\<forall>k\<in>set ks. 1 \<le> k \<and> k \<le> R) \<and>
          calls st = sum_list ks \<and>
          requests (trace st) =
            concat (map2 (\<lambda>k i. replicate k
                      (embedding_request (map create_embedding_text (take B (drop i items)))))
                    ks (py_range 0 (length items) B)))) \<and>
    (0 < R \<and> (\<forall>n req. \<exists>d. embeddings_create svc n req = Data d \<and>
                           length d \<le> length (input req)) \<longrightarrow>
       (\<exists>st'. embed_with B R svc items = Inr st' \<and>
          calls st' = nat \<lceil>real (length items) / real B\<rceil>))"
proof (intro conjI impI ballI)
  show "length (py_range 0 (length items) B) = nat \<lceil>real (length items) / real B\<rceil>"
    by (rule batch_count [OF assms])
next
  fix i assume "i \<in> set (py_range 0 (length items) B)"
  with py_range_bound [OF assms] have "i < length items" by blast
  with assms show "take B (drop i items) \<noteq> []" by simp
next
  fix i show "length (take B (drop i items)) \<le> B" by simp
next
  show "concat (map (\<lambda>i. take B (drop i items)) (py_range 0 (length items) B)) = items"
    using concat_batches [OF assms, of items 0] by simp
next
  show "embed_with B R svc [] = Inr \<lparr> points = [], calls = 0, uuids = 0, trace = [] \<rparr>"
    using assms by (simp add: embed_with_def py_range_Nil)
next
  assume a: "0 < R \<and> embed_with B R svc items = Inr st"
  then have run: "batches B R svc items (py_range 0 (length items) B)
                \<lparr> points = [], calls = 0, uuids = 0, trace = [] \<rparr> = Inr st"
    by (simp add: embed_with_Inr)
  from batches_calls [OF run assms] a batch_count [OF assms, of "length items"]
  show "\<exists>ks. length ks = nat \<lceil>real (length items) / real B\<rceil> \<and>
          (\<forall>k\<in>set ks. 1 \<le> k \<and> k \<le> R) \<and>
          calls st = sum_list ks \<and>
          requests (trace st) =
            concat (map2 (\<lambda>k i. replicate k
                      (embedding_request (map create_embedding_text (take B (drop i items)))))
                    ks (py_range 0 (length items) B))"
    by simp
next
  assume a: "0 < R \<and> (\<forall>n req. \<exists>d. embeddings_create svc n req = Data d \<and>
                           length d \<le> length (input req))"
  then have nf: "\<forall>n req. \<exists>d. embeddings_create svc n req = Data d \<and>
                           length d \<le> length (input req)" and R: "0 < R"
    by simp_all
  from batches_no_failure [OF nf R, of B items "py_range 0 (length items) B"
      "\<lparr> points = [], calls = 0, uuids = 0, trace = [] \<rparr>"]
    batch_count [OF assms, of "length items"] assms
  show "\<exists>st'. embed_with B R svc items = Inr st' \<and>
          calls st' = nat \<lceil>real (length items) / real B\<rceil>"
    by (simp add: embed_with_def)
qed

theorem batching_witness:
  "py_range 0 (length three_items) 2 = [0, 2] \<and>
   nat \<lceil>real (length three_items) / real (2::nat)\<rceil> = 2 \<and>
   concat (map (\<lambda>i. take 2 (drop i three_items)) [0, 2]) = three_items \<and>
   embed_with 2 3 (flaky 1) [] = Inr \<lparr> points = [], calls = 0, uuids = 0, trace = [] \<rparr> \<and>
   \<not> isl (embed_with 2 3 (flaky 1) three_items) \<and>
   calls (projr (embed_with 2 3 (flaky 1) three_items)) = 3 \<and>
   length (requests (trace (projr (embed_with 2 3 (flaky 1) three_items)))) = 3 \<and>
   \<not> isl (embed_with 2 3 (flaky 0) three_items) \<and>
   calls (projr (embed_with 2 3 (flaky 0) three_items)) = 2"
proof -
  have B: "(0::nat) < 2" and R: "(0::nat) < 3" by simp_all
  have ok: "\<not> isl (embed_with 2 3 (flaky 1) three_items)"
    and c3: "calls (projr (embed_with 2 3 (flaky 1) three_items)) = 3"
    and r3: "length (requests (trace (projr (embed_with 2 3 (flaky 1) three_items)))) = 3"
    and r: "py_range 0 (length three_items) 2 = [0, 2]"
    by (simp_all add: embedder_defs requests_def)
  from ok have run: "embed_with 2 3 (flaky 1) three_items
      = Inr (projr (embed_with 2 3 (flaky 1) three_items))"
    by simp
  have nf: "\<forall>n req. \<exists>d. embeddings_create (flaky 0) n req = Data d \<and>
      length d \<le> length (input req)"
    by (simp add: flaky_def)
  note one = batching [OF B, where items = three_items and R = 3 and svc = "flaky 1"
      and st = "projr (embed_with 2 3 (flaky 1) three_items)"]
  note none = batching [OF B, where items = three_items and R = 3 and svc = "flaky 0"]
  from one have len: "length (py_range 0 (length three_items) 2)
      = nat \<lceil>real (length three_items) / real (2::nat)\<rceil>"
    and cat: "concat (map (\<lambda>i. take 2 (drop i three_items)) (py_range 0 (length three_items) 2))
      = three_items"
    and empty: "embed_with 2 3 (flaky 1) [] = Inr \<lparr> points = [], calls = 0, uuids = 0, trace = [] \<rparr>"
    by blast+
  from one R run obtain ks where
    "length ks = nat \<lceil>real (length three_items) / real (2::nat)\<rceil>"
    "calls (projr (embed_with 2 3 (flaky 1) three_items)) = sum_list ks"
    by blast
  from none R nf obtain st' where st': "embed_with 2 3 (flaky 0) three_items = Inr st'"
    "calls st' = nat \<lceil>real (length three_items) / real (2::nat)\<rceil>"
    by blast
  from len r have two: "nat \<lceil>real (length three_items) / real (2::nat)\<rceil> = 2"
    by simp
  from st' two have "\<not> isl (embed_with 2 3 (flaky 0) three_items)"
    and "calls (projr (embed_with 2 3 (flaky 0) three_items)) = 2"
    by simp_all
  with r two cat empty ok c3 r3 show ?thesis
    by simp
qed

text \<open>
  On one item the first call fails and the second succeeds: two service calls for
  ceil(1/100) = 1 batch.
\<close>

theorem calls_exceed_batches_counterexample:
  "map_sum id calls (generate_embeddings (flaky 1) [passport] ''sk-example'') = Inr 2 \<and>
   nat \<lceil>real (length [passport]) / real BATCH_SIZE\<rceil> = 1"
proof -
  have "nat \<lceil>real (length [passport]) / real BATCH_SIZE\<rceil> = 1"
    using ceiling_div_up [of BATCH_SIZE "length [passport]"]
    by (simp add: BATCH_SIZE_def)
  moreover have "map_sum id calls (generate_embeddings (flaky 1) [passport] ''sk-example'') = Inr 2"
    by (simp add: embedder_defs)
  ultimately show ?thesis by simp
qed

text \<open>
  Claim C3: when the first RETRY_ATTEMPTS - 1 calls for a batch fail and the next one
  succeeds, the retry loop returns the same points as when the first call succeeds; when
  RETRY_ATTEMPTS calls in a row fail for a batch of a run, the embedder exits with status
  1; and when the embedder exits, the script ends with status 1 and the file system is
  what it was, so no output file is written.
\<close>

theorem retry_policy:
  assumes "0 < R"
  shows "((\<forall>k<R - 1. embeddings_create svc (calls st + k) (embedding_request texts) = Raises) \<and>
          embeddings_create svc (calls st + (R - 1)) (embedding_request texts) = Data d \<and>
          embeddings_create svc' (calls st) (embedding_request texts) = Data d \<and>
          uuid4 svc' = uuid4 svc \<and> length d \<le> length batch \<longrightarrow>
          (\<exists>s s'. attempts R svc batch texts [0..<R] st = Inr s \<and>
                   attempts R svc' batch texts [0..<R] st = Inr s' \<and> points s = points s')) \<and>
         (0 < B \<and> py_range 0 (length items) B = pre @ i # post \<and>
          batches B R svc items pre \<lparr> points = [], calls = 0, uuids = 0, trace = [] \<rparr> = Inr st1 \<and>
          (\<forall>k<R. embeddings_create svc (calls st1 + k)
               (embedding_request (map create_embedding_text (take B (drop i items)))) = Raises) \<longrightarrow>
          embed_with B R svc items = Inl (SystemExit 1)) \<and>
         (OPENAI_API_KEY w = Some key \<and> key \<noteq> [] \<and>
          load_knowledge_base (csv_file w) = Inr loaded \<and>
          generate_embeddings (services w) loaded key = Inl a \<longrightarrow>
          script w fs = (1, fs))"
proof (intro conjI impI)
  assume h: "(\<forall>k<R - 1. embeddings_create svc (calls st + k) (embedding_request texts) = Raises) \<and>
          embeddings_create svc (calls st + (R - 1)) (embedding_request texts) = Data d \<and>
          embeddings_create svc' (calls st) (embedding_request texts) = Data d \<and>
          uuid4 svc' = uuid4 svc \<and> length d \<le> length batch"
  then have h1: "\<forall>k<R - 1. embeddings_create svc (calls st + k) (embedding_request texts) = Raises"
    and h2: "embeddings_create svc (calls st + (R - 1)) (embedding_request texts) = Data d"
    and h3: "embeddings_create svc' (calls st) (embedding_request texts) = Data d"
    and h4: "uuid4 svc' = uuid4 svc" and h5: "length d \<le> length batch"
    by blast+
  show "\<exists>s s'. attempts R svc batch texts [0..<R] st = Inr s \<and>
                   attempts R svc' batch texts [0..<R] st = Inr s' \<and> points s = points s'"
    by (rule attempts_retry_same_points [OF assms h1 h2 h3 h4 h5])
next
  assume a: "0 < B \<and> py_range 0 (length items) B = pre @ i # post \<and>
          batches B R svc items pre \<lparr> points = [], calls = 0, uuids = 0, trace = [] \<rparr> = Inr st1 \<and>
          (\<forall>k<R. embeddings_create svc (calls st1 + k)
               (embedding_request (map create_embedding_text (take B (drop i items)))) = Raises)"
  then have b1: "batches B R svc items pre \<lparr> points = [], calls = 0, uuids = 0, trace = [] \<rparr> = Inr st1"
    and b2: "\<forall>k<R. embeddings_create svc (calls st1 + k)
               (embedding_request (map create_embedding_text (take B (drop i items)))) = Raises"
    by blast+
  have "batches B R svc items (pre @ i # post)
      \<lparr> points = [], calls = 0, uuids = 0, trace = [] \<rparr> = Inl (SystemExit 1)"
    by (rule batches_abort [OF assms b1 b2])
  with a show "embed_with B R svc items = Inl (SystemExit 1)"
    by (simp add: embed_with_def)
next
  assume "OPENAI_API_KEY w = Some key \<and> key \<noteq> [] \<and>
          load_knowledge_base (csv_file w) = Inr loaded \<and>
          generate_embeddings (services w) loaded key = Inl a"
  then have "OPENAI_API_KEY w = Some key" and "key \<noteq> []"
    and "load_knowledge_base (csv_file w) = Inr loaded"
    and "generate_embeddings (services w) loaded key = Inl a"
    by blast+
  then show "script w fs = (1, fs)"
    by (rule script_abort)
qed

theorem retry_policy_witness:
  "attempts 3 (flaky 2) [passport] [create_embedding_text passport] [0..<3]
      \<lparr> points = [], calls = 0, uuids = 0, trace = [] \<rparr>
     = Inr \<lparr> points = [\<lparr> point_id = ''u'', vector = replicate EMBEDDING_DIMENSIONS 0,
                         payload = passport \<rparr>],
             calls = 3, uuids = 1,
             trace = [Create (embedding_request [create_embedding_text passport]),
                      Sleep RETRY_DELAY,
                      Create (embedding_request [create_embedding_text passport]),
                      Sleep RETRY_DELAY,
                      Create (embedding_request [create_embedding_text passport])] \<rparr> \<and>
   points (projr (attempts 3 (flaky 2) [passport] [create_embedding_text passport] [0..<3]
      \<lparr> points = [], calls = 0, uuids = 0, trace = [] \<rparr>))
     = points (projr (attempts 3 (flaky 0) [passport] [create_embedding_text passport] [0..<3]
      \<lparr> points = [], calls = 0, uuids = 0, trace = [] \<rparr>)) \<and>
   embed_with 100 3 down [passport] = Inl (SystemExit 1) \<and>
   script (example_world down) Map.empty = (1, Map.empty)"
proof -
  let ?st = "\<lparr> points = [], calls = 0, uuids = 0, trace = [] \<rparr> :: nat state"
  let ?texts = "[create_embedding_text passport]"
  let ?d = "[replicate EMBEDDING_DIMENSIONS (0::nat)]"
  have R: "(0::nat) < 3" by simp
  have run: "attempts 3 (flaky 2) [passport] ?texts [0..<3] ?st
     = Inr \<lparr> points = [\<lparr> point_id = ''u'', vector = replicate EMBEDDING_DIMENSIONS 0,
                         payload = passport \<rparr>],
             calls = 3, uuids = 1,
             trace = [Create (embedding_request ?texts), Sleep RETRY_DELAY,
                      Create (embedding_request ?texts), Sleep RETRY_DELAY,
                      Create (embedding_request ?texts)] \<rparr>"
    by (simp add: three_attempts try_block_def flaky_def format_points_Cons Let_def
        embedding_request_def)
  have h1: "(\<forall>k<3 - 1. embeddings_create (flaky 2) (calls ?st + k) (embedding_request ?texts) = Raises) \<and>
      embeddings_create (flaky 2) (calls ?st + (3 - 1)) (embedding_request ?texts) = Data ?d \<and>
      embeddings_create (flaky 0) (calls ?st) (embedding_request ?texts) = Data ?d \<and>
      uuid4 (flaky 0) = uuid4 (flaky 2) \<and> length ?d \<le> length [passport]"
    by (simp add: flaky_def embedding_request_def)
  have h2: "(0::nat) < 100 \<and> py_range 0 (length [passport]) 100 = [] @ 0 # [] \<and>
      batches 100 3 down [passport] [] ?st = Inr ?st \<and>
      (\<forall>k<3. embeddings_create down (calls ?st + k)
         (embedding_request (map create_embedding_text (take 100 (drop 0 [passport])))) = Raises)"
    by (simp add: py_range.simps down_def)
  have h3: "OPENAI_API_KEY (example_world down) = Some ''sk-example'' \<and> ''sk-example'' \<noteq> [] \<and>
      load_knowledge_base (csv_file (example_world down)) = Inr [passport] \<and>
      generate_embeddings (services (example_world down)) [passport] ''sk-example''
        = Inl (SystemExit 1)"
    by (simp add: example_world_def loader_defs embedder_defs)
  from retry_policy [OF R, where svc = "flaky 2" and st = ?st and texts = ?texts and d = ?d
        and svc' = "flaky 0" and batch = "[passport]"]
      retry_policy [OF R, where svc = down and B = 100 and items = "[passport]" and pre = "[]"
        and i = 0 and post = "[]" and ?st1.0 = ?st and w = "example_world down"
        and key = "''sk-example''" and loaded = "[passport]" and a = "SystemExit 1"
        and fs = Map.empty]
      h1 h2 h3
  have "(\<exists>s s'. attempts 3 (flaky 2) [passport] ?texts [0..<3] ?st = Inr s \<and>
                 attempts 3 (flaky 0) [passport] ?texts [0..<3] ?st = Inr s' \<and> points s = points s') \<and>
        embed_with 100 3 down [passport] = Inl (SystemExit 1) \<and>
        script (example_world down) Map.empty = (1, Map.empty)"
    by blast
  then have "points (projr (attempts 3 (flaky 2) [passport] ?texts [0..<3] ?st))
      = points (projr (attempts 3 (flaky 0) [passport] ?texts [0..<3] ?st)) \<and>
        embed_with 100 3 down [passport] = Inl (SystemExit 1) \<and>
        script (example_world down) Map.empty = (1, Map.empty)"
    by auto
  with run show ?thesis by simp
qed

subsection \<open>The embedding text\<close>

lemma template_unfolded:
  "embedding_template it =
     ''Item: '' @ format (item it) @ [CHR 0x0A] @
     ''Category: '' @ format (category it) @ [CHR 0x0A] @
     ''Travel Type: '' @ format (travel_type it) @ [CHR 0x0A] @
     ''Destination: '' @ format (destination_type it) @ [CHR 0x0A] @
     ''Season: '' @ join '', '' (season it) @ [CHR 0x0A] @
     ''Reason: '' @ format (reason it) @ [CHR 0x0A] @
     ''Tags: '' @ join '', '' (tags it) @ [CHR 0x0A] @
     ''Climate: '' @ join '', '' (climate it) @ [CHR 0x0A] @
     ''Importance: '' @ format (importance it)"
  by (simp add: embedding_template_def)

lemma text_is_stripped_template: "create_embedding_text it = strip (embedding_template it)"
  by (simp only: create_embedding_text_def template_unfolded)

lemma template_front: "lstrip (embedding_template it) = embedding_template it"
  by (simp add: template_unfolded lstrip_def isspace_def)

lemma template_last:
  "format (importance it) \<noteq> [] \<Longrightarrow>
     last (embedding_template it) = last (format (importance it))"
  by (simp add: template_unfolded)

text \<open>
  Claim C5, as the code has it: the text is the template with the whitespace at its end
  removed; nothing is removed at the front, which is the label of the item. When the
  importance is not empty and does not end in whitespace, the text is the template itself.
\<close>

theorem embedding_text_is_template:
  "create_embedding_text it = rstrip (embedding_template it) \<and>
   (format (importance it) \<noteq> [] \<and> \<not> isspace (last (format (importance it))) \<longrightarrow>
      create_embedding_text it = embedding_template it)"
proof (intro conjI impI)
  show stripped: "create_embedding_text it = rstrip (embedding_template it)"
    by (simp add: text_is_stripped_template strip_def template_front)
  assume "format (importance it) \<noteq> [] \<and> \<not> isspace (last (format (importance it)))"
  then have "\<not> isspace (last (embedding_template it))"
    by (simp add: template_last)
  then have "rstrip (embedding_template it) = embedding_template it"
    by (intro rstrip_id) simp
  with stripped show "create_embedding_text it = embedding_template it"
    by simp
qed

theorem embedding_text_is_template_witness:
  "format (importance passport) = ''critical'' \<and>
   create_embedding_text passport = embedding_template passport \<and>
   create_embedding_text passport =
     ''Item: Passport'' @ [CHR 0x0A] @ ''Category: documents'' @ [CHR 0x0A] @
     ''Travel Type: business'' @ [CHR 0x0A] @ ''Destination: international'' @ [CHR 0x0A] @
     ''Season: all'' @ [CHR 0x0A] @ ''Reason: required'' @ [CHR 0x0A] @
     ''Tags: essential'' @ [CHR 0x0A] @ ''Climate: any'' @ [CHR 0x0A] @
     ''Importance: critical''"
proof -
  have imp: "format (importance passport) = ''critical''"
    by (simp add: passport_def format_def)
  then have h: "format (importance passport) \<noteq> [] \<and> \<not> isspace (last (format (importance passport)))"
    by (simp add: isspace_def)
  have t: "embedding_template passport =
     ''Item: Passport'' @ [CHR 0x0A] @ ''Category: documents'' @ [CHR 0x0A] @
     ''Travel Type: business'' @ [CHR 0x0A] @ ''Destination: international'' @ [CHR 0x0A] @
     ''Season: all'' @ [CHR 0x0A] @ ''Reason: required'' @ [CHR 0x0A] @
     ''Tags: essential'' @ [CHR 0x0A] @ ''Climate: any'' @ [CHR 0x0A] @
     ''Importance: critical''"
    by (simp add: template_unfolded passport_def format_def)
  from embedding_text_is_template [of passport] h
  have "create_embedding_text passport = embedding_template passport"
    by blast
  with imp t show ?thesis
    by simp
qed

text \<open>
  An importance that ends in a space: the text ends with \<^verbatim>\<open>Importance: high\<close>, the
  template with \<^verbatim>\<open>Importance: high \<close>.
\<close>

theorem embedding_text_stripped_counterexample:
  "create_embedding_text (passport\<lparr> importance := PyStr ''high '' \<rparr>)
     \<noteq> embedding_template (passport\<lparr> importance := PyStr ''high '' \<rparr>)"
  by (simp add: create_embedding_text_def template_unfolded passport_def format_def
      strip_def lstrip_def rstrip_def isspace_def)

text \<open>
  Claim C7: the text is a function of the item alone, and of nine of its fields: two
  items that agree on them (the quantity is not read) give the same text, so building
  the text again from the same item gives the same string.
\<close>

theorem embedding_text_deterministic:
  assumes "item a = item b" and "category a = category b"
    and "travel_type a = travel_type b" and "destination_type a = destination_type b"
    and "season a = season b" and "reason a = reason b" and "tags a = tags b"
    and "climate a = climate b" and "importance a = importance b"
  shows "create_embedding_text a = create_embedding_text b"
  using assms by (simp add: create_embedding_text_def)

theorem embedding_text_deterministic_witness:
  "create_embedding_text passport = create_embedding_text (passport\<lparr> quantity := 7 \<rparr>) \<and>
   create_embedding_text passport = create_embedding_text passport"
proof -
  have "create_embedding_text passport = create_embedding_text (passport\<lparr> quantity := 7 \<rparr>)"
    by (rule embedding_text_deterministic) simp_all
  moreover have "create_embedding_text passport = create_embedding_text passport"
    by (rule embedding_text_deterministic) simp_all
  ultimately show ?thesis by simp
qed

subsection \<open>Two more runs\<close>

text \<open>
  An answer longer than the batch raises \<^verbatim>\<open>IndexError\<close> after the batch's points are
  appended; the retry appends them again. A run of the whole script on the example row,
  with two failed calls, ends with status 0 and writes the file.
\<close>

lemma overlong_response_duplicates:
  "map payload (points (projr (generate_embeddings overlong [passport] ''sk-example'')))
     = [passport, passport] \<and>
   calls (projr (generate_embeddings overlong [passport] ''sk-example'')) = 2"
  by (simp add: embedder_defs overlong_def)

lemma end_to_end_example:
  "fst (script (example_world (flaky 2)) Map.empty) = 0 \<and>
   snd (script (example_world (flaky 2)) Map.empty) OUTPUT_FILE =
     Some (Json \<lparr> doc_points = [\<lparr> point_id = ''u'', vector = replicate EMBEDDING_DIMENSIONS 0,
                                   payload = passport \<rparr>],
                   doc_metadata = \<lparr> total_items = 1, embedding_model = EMBEDDING_MODEL,
                                     meta_dimensions = EMBEDDING_DIMENSIONS,
                                     generated_at = ''2025-01-01 00:00:00'' \<rparr> \<rparr>)"
  by (simp add: script_def main_def example_world_def save_embeddings_def print_statistics_def
      mixed_def loader_defs embedder_defs)

end
